theory Spec2Isabelle
  imports Complex_Main "HOL-Library.Log_Nat" "HOL-Library.Sublist"
begin

section \<open>JavaScript numbers\<close>

text \<open>
  A JavaScript number is an IEEE-754 binary64 value. A finite value is kept as a sign
  bit (\<open>True\<close> for negative) and its exact magnitude, a rational; both zeros exist.
  Every arithmetic result is rounded to the nearest representable value, ties to even.
\<close>

datatype jsnum = NaN | Inf bool | Fin bool rat

definition pow2 :: "int \<Rightarrow> rat" where
  "pow2 k = (if 0 \<le> k then 2 ^ nat k else 1 / 2 ^ nat (- k))"

definition ilog2 :: "rat \<Rightarrow> int" where
  \<comment> \<open>for \<open>0 < q\<close>: the exponent \<open>e\<close> with \<open>2^e \<le> q < 2^(e+1)\<close>\<close>
  "ilog2 q =
     (if 1 \<le> q then int (floorlog 2 (nat \<lfloor>q\<rfloor>)) - 1
      else - int (floorlog 2 (nat (\<lceil>1 / q\<rceil> - 1))))"

definition round_half_even :: "rat \<Rightarrow> int" where
  "round_half_even x =
     (let f = \<lfloor>x\<rfloor>; r = x - of_int f
      in if r < 1 / 2 then f
         else if 1 / 2 < r then f + 1
         else if even f then f else f + 1)"

definition ulp_exp :: "rat \<Rightarrow> int" where
  \<comment> \<open>exponent of the unit in the last place: 53 significant bits, subnormals below \<open>2^-1022\<close>\<close>
  "ulp_exp q = max (ilog2 q) (- 1022) - 52"

definition rd :: "rat \<Rightarrow> rat" where
  \<comment> \<open>the magnitude \<open>q \<ge> 0\<close> rounded to the binary64 grid\<close>
  "rd q = (if q = 0 then 0
           else of_int (round_half_even (q / pow2 (ulp_exp q))) * pow2 (ulp_exp q))"

definition overflows :: "rat \<Rightarrow> bool" where
  \<comment> \<open>the rounded magnitude reaches \<open>2^1024\<close>\<close>
  "overflows q \<longleftrightarrow>
     q \<noteq> 0 \<and> (1023 < ilog2 q \<or>
       (ilog2 q = 1023 \<and> round_half_even (q / pow2 (ulp_exp q)) = 2 ^ 53))"

definition to_double :: "bool \<Rightarrow> rat \<Rightarrow> jsnum" where
  "to_double sg q = (if overflows q then Inf sg else Fin sg (rd q))"

fun js_add :: "jsnum \<Rightarrow> jsnum \<Rightarrow> jsnum" where
  "js_add NaN _ = NaN"
| "js_add _ NaN = NaN"
| "js_add (Inf s) (Inf t) = (if s = t then Inf s else NaN)"
| "js_add (Inf s) (Fin _ _) = Inf s"
| "js_add (Fin _ _) (Inf t) = Inf t"
| "js_add (Fin s a) (Fin t b) =
     (if s = t then to_double s (a + b)
      else if b < a then to_double s (a - b)
      else if a < b then to_double t (b - a)
      else Fin False 0)"

fun js_mul :: "jsnum \<Rightarrow> jsnum \<Rightarrow> jsnum" where
  "js_mul NaN _ = NaN"
| "js_mul _ NaN = NaN"
| "js_mul (Inf s) (Inf t) = Inf (s \<noteq> t)"
| "js_mul (Inf s) (Fin t b) = (if b = 0 then NaN else Inf (s \<noteq> t))"
| "js_mul (Fin s a) (Inf t) = (if a = 0 then NaN else Inf (s \<noteq> t))"
| "js_mul (Fin s a) (Fin t b) = to_double (s \<noteq> t) (a * b)"

definition signed :: "bool \<Rightarrow> rat \<Rightarrow> rat" where
  "signed s a = (if s then - a else a)"

fun js_le :: "jsnum \<Rightarrow> jsnum \<Rightarrow> bool" where
  \<comment> \<open>\<open>a <= b\<close>; every comparison with NaN is false\<close>
  "js_le NaN _ = False"
| "js_le _ NaN = False"
| "js_le (Inf s) (Inf t) = (s \<or> \<not> t)"
| "js_le (Inf s) (Fin _ _) = s"
| "js_le (Fin _ _) (Inf t) = (\<not> t)"
| "js_le (Fin s a) (Fin t b) = (signed s a \<le> signed t b)"

definition js_ge :: "jsnum \<Rightarrow> jsnum \<Rightarrow> bool" where
  "js_ge a b = js_le b a"

definition num :: "nat \<Rightarrow> jsnum" where
  \<comment> \<open>a non-negative integer literal\<close>
  "num n = to_double False (of_nat n)"

section \<open>JavaScript strings\<close>

text \<open>
  Strings are sequences of code units; the model covers the code units below 256.
\<close>

definition is_digit :: "char \<Rightarrow> bool" where
  "is_digit c \<longleftrightarrow> 48 \<le> (of_char c :: nat) \<and> (of_char c :: nat) \<le> 57"

definition is_space :: "char \<Rightarrow> bool" where
  \<comment> \<open>WhiteSpace and LineTerminator below 256: TAB, LF, VT, FF, CR, SP, NBSP\<close>
  "is_space c \<longleftrightarrow> (of_char c :: nat) \<in> {9, 10, 11, 12, 13, 32, 160}"

fun dec_val :: "nat \<Rightarrow> string \<Rightarrow> nat" where
  "dec_val acc [] = acc"
| "dec_val acc (c # cs) = dec_val (10 * acc + (of_char c - 48)) cs"

fun replace_first :: "char \<Rightarrow> char \<Rightarrow> string \<Rightarrow> string" where
  \<comment> \<open>\<open>s.replace(a, b)\<close> with one-character strings: the first occurrence only\<close>
  "replace_first a b [] = []"
| "replace_first a b (c # cs) = (if c = a then b # cs else c # replace_first a b cs)"

fun split_on :: "char \<Rightarrow> string \<Rightarrow> string list" where
  \<comment> \<open>\<open>s.split(sep)\<close> with a one-character separator\<close>
  "split_on sep [] = [[]]"
| "split_on sep (c # cs) =
     (if c = sep then [] # split_on sep cs
      else (case split_on sep cs of [] \<Rightarrow> [[c]] | p # ps \<Rightarrow> (c # p) # ps))"

definition to_lower_char :: "char \<Rightarrow> char" where
  "to_lower_char c =
     (let n = (of_char c :: nat)
      in if (65 \<le> n \<and> n \<le> 90) \<or> (192 \<le> n \<and> n \<le> 222 \<and> n \<noteq> 215)
         then char_of (n + 32) else c)"

definition toLowerCase :: "string \<Rightarrow> string" where
  "toLowerCase s = map to_lower_char s"

definition trim :: "string \<Rightarrow> string" where
  "trim s = rev (dropWhile is_space (rev (dropWhile is_space s)))"

definition starts_with :: "string \<Rightarrow> string \<Rightarrow> bool" where
  "starts_with p s \<longleftrightarrow> take (length p) s = p"

definition sign_of :: "string \<Rightarrow> bool \<times> string" where
  \<comment> \<open>an optional leading \<open>+\<close> or \<open>-\<close>\<close>
  "sign_of s =
     (case s of [] \<Rightarrow> (False, [])
      | c # cs \<Rightarrow> if c = CHR ''-'' then (True, cs)
                  else if c = CHR ''+'' then (False, cs) else (False, s))"

definition parseInt10 :: "string \<Rightarrow> jsnum" where
  \<comment> \<open>\<open>parseInt(s, 10)\<close>\<close>
  "parseInt10 str =
     (let (sg, s) = sign_of (dropWhile is_space str);
          z = takeWhile is_digit s
      in if z = [] then NaN else to_double sg (of_nat (dec_val 0 z)))"

definition exponent_part :: "string \<Rightarrow> int" where
  \<comment> \<open>the value of an ExponentPart at the head of \<open>s\<close>, 0 when there is none\<close>
  "exponent_part s =
     (case s of [] \<Rightarrow> 0
      | c # cs \<Rightarrow>
          if c = CHR ''e'' \<or> c = CHR ''E'' then
            (let (sg, t) = sign_of cs; ds = takeWhile is_digit t
             in if ds = [] then 0
                else if sg then - int (dec_val 0 ds) else int (dec_val 0 ds))
          else 0)"

definition pow10 :: "int \<Rightarrow> rat" where
  "pow10 k = (if 0 \<le> k then 10 ^ nat k else 1 / 10 ^ nat (- k))"

definition parseFloat :: "string \<Rightarrow> jsnum" where
  \<comment> \<open>the longest prefix that is a StrDecimalLiteral, correctly rounded\<close>
  "parseFloat str =
     (let (sg, s) = sign_of (dropWhile is_space str)
      in if starts_with ''Infinity'' s then Inf sg
         else
           let ip = takeWhile is_digit s;
               r1 = dropWhile is_digit s;
               dot = (r1 \<noteq> [] \<and> hd r1 = CHR ''.'');
               fp = (if dot then takeWhile is_digit (tl r1) else []);
               r2 = (if dot then dropWhile is_digit (tl r1) else r1)
           in if ip = [] \<and> fp = [] then NaN
              else to_double sg
                     (of_nat (dec_val 0 (ip @ fp)) * pow10 (exponent_part r2 - int (length fp))))"

section \<open>The timestamp parser\<close>

definition field :: "string list \<Rightarrow> nat \<Rightarrow> string" where
  \<comment> \<open>\<open>parts[i]\<close> as \<open>parseInt\<close> and \<open>parseFloat\<close> read it: a missing element is
      \<open>undefined\<close>, which they convert to the string \<open>undefined\<close>\<close>
  "field parts i = (if i < length parts then parts ! i else ''undefined'')"

definition parseTime :: "string option \<Rightarrow> jsnum" where
  \<comment> \<open>\<open>None\<close> is a missing argument (\<open>undefined\<close> or \<open>null\<close>)\<close>
  "parseTime timeString =
     (case timeString of
        None \<Rightarrow> Fin False 0
      | Some ts \<Rightarrow>
          if ts = [] then Fin False 0
          else
            let parts = split_on CHR '':'' (replace_first CHR '','' CHR ''.'' ts);
                hours = parseInt10 (field parts 0);
                minutes = parseInt10 (field parts 1);
                seconds = parseFloat (field parts 2)
            in js_mul (js_add (js_add (js_mul hours (num 3600)) (js_mul minutes (num 60))) seconds)
                 (num 1000))"


section \<open>Regular expressions\<close>

text \<open>
  The two patterns of the cue extractor use character classes, sequence, alternation,
  greedy and lazy repetition, capture groups, a positive lookahead and the end-of-input
  anchor. \<open>ms r s c\<close> lists, in the priority order of the backtracking matcher, the ways
  \<open>r\<close> can match at the head of the remaining input \<open>s\<close>: the input left after the match
  and the captures made. An iteration of a repetition that consumes nothing is rejected.
\<close>

abbreviation LF :: char where "LF \<equiv> CHR 0x0A"
abbreviation CR :: char where "CR \<equiv> CHR 0x0D"

datatype cclass = Digit | Space | NotNewline | AnyChar | Lit char

fun in_class :: "cclass \<Rightarrow> char \<Rightarrow> bool" where
  "in_class Digit c = is_digit c"
| "in_class Space c = is_space c"
| "in_class NotNewline c = (c \<noteq> LF)"
| "in_class AnyChar c = True"
| "in_class (Lit d) c = (c = d)"

datatype regex =
    Eps
  | Chr cclass
  | Seq regex regex
  | Alt regex regex
  | Star regex
  | LazyStar regex
  | Group nat regex
  | Look regex
  | Eos

type_synonym caps = "(nat \<times> string) list"

function ms :: "regex \<Rightarrow> string \<Rightarrow> caps \<Rightarrow> (string \<times> caps) list" where
  "ms Eps s c = [(s, c)]"
| "ms (Chr k) s c = (case s of [] \<Rightarrow> [] | x # xs \<Rightarrow> if in_class k x then [(xs, c)] else [])"
| "ms (Seq a b) s c = concat (map (\<lambda>(s', c'). ms b s' c') (ms a s c))"
| "ms (Alt a b) s c = ms a s c @ ms b s c"
| "ms (Star r) s c =
     concat (map (\<lambda>(s', c'). if length s' < length s then ms (Star r) s' c' else [])
               (ms r s c)) @ [(s, c)]"
| "ms (LazyStar r) s c =
     (s, c) # concat (map (\<lambda>(s', c'). if length s' < length s then ms (LazyStar r) s' c' else [])
                        (ms r s c))"
| "ms (Group n r) s c =
     map (\<lambda>(s', c'). (s', (n, take (length s - length s') s) # c')) (ms r s c)"
| "ms (Look r) s c = (case ms r s c of [] \<Rightarrow> [] | (s', c') # _ \<Rightarrow> [(s, c')])"
| "ms Eos s c = (if s = [] then [(s, c)] else [])"
  by pat_completeness auto
termination
  by (relation "measures [\<lambda>(r, s, c). size r, \<lambda>(r, s, c). length s]") auto

declare ms.simps(5,6) [simp del]

fun cap :: "caps \<Rightarrow> nat \<Rightarrow> string option" where
  \<comment> \<open>\<open>match[n]\<close>; \<open>None\<close> is \<open>undefined\<close>\<close>
  "cap [] n = None"
| "cap ((k, v) # c) n = (if k = n then Some v else cap c n)"

fun exec :: "regex \<Rightarrow> string \<Rightarrow> (string \<times> caps) option" where
  \<comment> \<open>the first match at or after the current position: the input left after it, and its captures\<close>
  "exec r [] = (case ms r [] [] of [] \<Rightarrow> None | m # _ \<Rightarrow> Some m)"
| "exec r (x # xs) = (case ms r (x # xs) [] of [] \<Rightarrow> exec r xs | m # _ \<Rightarrow> Some m)"

function exec_all :: "regex \<Rightarrow> string \<Rightarrow> caps list option" where
  \<comment> \<open>\<open>while ((match = pattern.exec(text)) !== null)\<close> with the \<open>g\<close> flag: each search starts
      where the last match ended. A match that leaves \<open>lastIndex\<close> where it was is found
      again for ever: \<open>None\<close>.\<close>
  "exec_all r s =
     (case exec r s of
        None \<Rightarrow> Some []
      | Some (rest, c) \<Rightarrow>
          if length rest < length s then map_option ((#) c) (exec_all r rest) else None)"
  by pat_completeness auto
termination
  by (relation "measure (\<lambda>(r, s). length s)") auto

declare exec_all.simps [simp del]

fun lits :: "string \<Rightarrow> regex" where
  "lits [] = Eps"
| "lits (c # cs) = Seq (Chr (Lit c)) (lits cs)"

fun seqs :: "regex list \<Rightarrow> regex" where
  "seqs [] = Eps"
| "seqs (r # rs) = Seq r (seqs rs)"

definition Plus :: "regex \<Rightarrow> regex" where
  "Plus r = Seq r (Star r)"

definition stamp :: "char \<Rightarrow> regex" where
  \<comment> \<open>\<open>\d{2}:\d{2}:\d{2}\<close>, the separator, \<open>\d{3}\<close>\<close>
  "stamp sep =
     seqs [Chr Digit, Chr Digit, Chr (Lit CHR '':''), Chr Digit, Chr Digit, Chr (Lit CHR '':''),
           Chr Digit, Chr Digit, Chr (Lit sep), Chr Digit, Chr Digit, Chr Digit]"

definition cue_end :: regex where
  \<comment> \<open>\<open>(?=\n\n|\n$|$)\<close>\<close>
  "cue_end = Look (Alt (lits [LF, LF]) (Alt (Seq (Chr (Lit LF)) Eos) Eos))"

definition srt_pattern :: regex where
  "srt_pattern =
     seqs [Group 1 (Plus (Chr Digit)), Chr (Lit LF),
           Group 2 (stamp CHR '',''), lits '' --> '', Group 3 (stamp CHR '',''), Chr (Lit LF),
           Group 4 (LazyStar (Chr AnyChar)), cue_end]"

definition vtt_pattern :: regex where
  "vtt_pattern =
     seqs [Group 1 (stamp CHR ''.''), Plus (Chr Space), lits ''-->'', Plus (Chr Space),
           Group 2 (stamp CHR ''.''), Star (Chr NotNewline), Chr (Lit LF),
           Group 3 (LazyStar (Chr AnyChar)), cue_end]"

fun minlen :: "regex \<Rightarrow> nat" where
  \<comment> \<open>a lower bound on the length of every match\<close>
  "minlen Eps = 0"
| "minlen (Chr k) = 1"
| "minlen (Seq a b) = minlen a + minlen b"
| "minlen (Alt a b) = min (minlen a) (minlen b)"
| "minlen (Star r) = 0"
| "minlen (LazyStar r) = 0"
| "minlen (Group n r) = minlen r"
| "minlen (Look r) = 0"
| "minlen Eos = 0"


section \<open>Cues\<close>

text \<open>
  A cue is an object; \<open>cid\<close> is its identity, so that \<open>!==\<close> on two cues compares
  the identities. Every cue pushed by a parser is a new object.
\<close>

record cue =
  cid :: nat
  start :: jsnum
  end' :: jsnum
  text' :: string

definition mk_cue :: "nat \<Rightarrow> nat \<Rightarrow> nat \<Rightarrow> nat \<Rightarrow> caps \<Rightarrow> cue" where
  \<comment> \<open>the object literal pushed for one match; the text group takes part in every match\<close>
  "mk_cue gs ge gt i c =
     \<lparr>cid = i, start = parseTime (cap c gs), end' = parseTime (cap c ge),
      text' = (case cap c gt of None \<Rightarrow> [] | Some t \<Rightarrow> trim t)\<rparr>"

fun alloc :: "(nat \<Rightarrow> caps \<Rightarrow> cue) \<Rightarrow> nat \<Rightarrow> caps list \<Rightarrow> cue list" where
  "alloc mk i [] = []"
| "alloc mk i (c # cs) = mk i c # alloc mk (Suc i) cs"

fun replace_crlf :: "string \<Rightarrow> string" where
  \<comment> \<open>\<open>replace(/\r\n/g, '\n')\<close>\<close>
  "replace_crlf (a # b # cs) =
     (if a = CR \<and> b = LF then LF # replace_crlf cs else a # replace_crlf (b # cs))"
| "replace_crlf cs = cs"

definition normalize :: "string \<Rightarrow> string" where
  "normalize t = map (\<lambda>c. if c = CR then LF else c) (replace_crlf t)"

definition br_text :: "string \<Rightarrow> string" where
  \<comment> \<open>\<open>replace(/\n/g, '<br>')\<close>\<close>
  "br_text t = concat (map (\<lambda>c. if c = LF then ''<br>'' else [c]) t)"

fun show_nat :: "nat \<Rightarrow> string" where
  \<comment> \<open>the decimal digits of a non-negative integer. A template literal renders a number
      so when it is an integer below \<open>2^53\<close> (beyond, the digits are the shortest that
      read back, and from \<open>10^21\<close> on the notation is exponential)\<close>
  "show_nat n =
     (if n < 10 then [char_of (48 + n)] else show_nat (n div 10) @ [char_of (48 + n mod 10)])"

declare show_nat.simps [simp del]

section \<open>The subtitle manager\<close>

datatype error = TypeError | Hang

datatype level = Log | Error

record style =
  css_display :: string
  css_top :: string
  css_bottom :: string
  css_left :: string
  css_right :: string
  css_justifyContent :: string
  css_fontSize :: string
  css_color :: string
  css_marginTop :: string
  css_marginBottom :: string
  css_textShadow :: string
  css_background :: string

text \<open>
  An element of the document: its class list, the markup last assigned to it, whether it
  has a parent node, and for each style property the text last assigned (an assignment of
  something that is no text leaves the property as it is).
\<close>

record element =
  classList :: "string list"
  innerHTML :: string
  parentNode :: bool
  style :: style

record config =
  subtitleSize :: "string option"
  subtitleColor :: "string option"
  subtitlePosition :: "string option"
  subtitleBackground :: "string option"

text \<open>
  The instance, with the sinks it writes to: the console, the debug overlay and the
  requests handed to \<open>ajax.request\<close> (the locator and the format its callbacks close over).
\<close>

record mgr =
  overlay :: "element option"
  innerOverlay :: "element option"
  cues :: "cue list"
  activeCue :: "cue option"
  settings :: config
  isEnabled :: bool
  next_cid :: nat
  console :: "(level \<times> string) list"
  debugOverlay :: "string list"
  requests :: "(string \<times> string) list"

definition no_style :: style where
  "no_style =
     \<lparr>css_display = [], css_top = [], css_bottom = [], css_left = [], css_right = [],
      css_justifyContent = [], css_fontSize = [], css_color = [], css_marginTop = [],
      css_marginBottom = [], css_textShadow = [], css_background = []\<rparr>"

definition constructed :: mgr where
  \<comment> \<open>the instance as the constructor and \<open>init()\<close> leave it, mounted in its container\<close>
  "constructed =
     \<lparr>overlay = Some \<lparr>classList = [''videoSubtitles''], innerHTML = [], parentNode = True,
                         style = no_style\<lparr>css_display := ''none''\<rparr>\<rparr>,
      innerOverlay = Some \<lparr>classList = [''videoSubtitlesInner''], innerHTML = [],
                              parentNode = True, style = no_style\<rparr>,
      cues = [], activeCue = None,
      settings = \<lparr>subtitleSize = None, subtitleColor = None, subtitlePosition = None,
                  subtitleBackground = None\<rparr>,
      isEnabled = False, next_cid = 0, console = [], debugOverlay = [], requests = []\<rparr>"

definition say :: "level \<Rightarrow> string \<Rightarrow> mgr \<Rightarrow> mgr" where
  "say l m s = s\<lparr>console := console s @ [(l, m)]\<rparr>"

definition or_else :: "string option \<Rightarrow> string \<Rightarrow> string" where
  \<comment> \<open>\<open>v || d\<close>: a missing or empty string is falsy\<close>
  "or_else v d = (case v of None \<Rightarrow> d | Some x \<Rightarrow> if x = [] then d else x)"

definition sizes :: "(string \<times> string) list" where
  "sizes = [(''smaller'', ''2.2em''), (''small'', ''2.8em''), (''medium'', ''3.5em''),
            (''large'', ''4.5em''), (''extralarge'', ''5.5em'')]"

definition object_members :: "string list" where
  \<comment> \<open>the names the table, an object literal, inherits from \<open>Object.prototype\<close>\<close>
  "object_members =
     [''constructor'', ''toString'', ''toLocaleString'', ''valueOf'', ''hasOwnProperty'',
      ''isPrototypeOf'', ''propertyIsEnumerable'', ''__proto__'', ''__defineGetter__'',
      ''__defineSetter__'', ''__lookupGetter__'', ''__lookupSetter__'']"

definition font_size :: "string \<Rightarrow> string \<Rightarrow> string" where
  \<comment> \<open>\<open>s.fontSize = sizes[key] || sizes['medium']\<close>, given the size in place: an inherited
      member is an object, which is truthy and no size; assigning it leaves the property
      as it is\<close>
  "font_size key old =
     (case map_of sizes key of
        Some v \<Rightarrow> v
      | None \<Rightarrow> if key \<in> set object_members then old else ''3.5em'')"

definition inner_style :: "config \<Rightarrow> style \<Rightarrow> style" where
  \<comment> \<open>what \<open>applyStyles\<close> assigns on the inner element\<close>
  "inner_style conf st =
     (let position = or_else (subtitlePosition conf) ''bottom'';
          bg = or_else (subtitleBackground conf) ''drop-shadow''
      in st\<lparr>css_marginTop := (if position = ''top'' then ''10%'' else ''0''),
             css_marginBottom :=
               (if position = ''top'' then ''0''
                else if position = ''bottom-low'' then ''2%''
                else if position = ''bottom-high'' then ''20%''
                else if position = ''middle'' then ''0''
                else ''10%''),
             css_textShadow :=
               (if bg = ''drop-shadow''
                then ''0px 0px 8px rgba(0, 0, 0, 1), 0px 0px 4px rgba(0, 0, 0, 1)''
                else ''none''),
             css_background := (if bg = ''background'' then ''rgba(0, 0, 0, 0.7)'' else ''none'')\<rparr>)"

definition outer_style :: "config \<Rightarrow> style \<Rightarrow> style" where
  \<comment> \<open>what \<open>applyStyles\<close> assigns on the outer element\<close>
  "outer_style conf st =
     (let position = or_else (subtitlePosition conf) ''bottom''
      in st\<lparr>css_display := ''flex'', css_top := ''0'', css_bottom := ''0'', css_left := ''0'',
             css_right := ''0'',
             css_justifyContent :=
               (if position = ''top'' then ''flex-start''
                else if position = ''middle'' then ''center'' else ''flex-end'')\<rparr>)"

definition applyStyles :: "config option \<Rightarrow> mgr \<Rightarrow> error option \<times> mgr" where
  "applyStyles arg s =
     (let s1 = s\<lparr>settings := (case arg of None \<Rightarrow> settings s | Some c \<Rightarrow> c)\<rparr>;
          conf = settings s1
      in case innerOverlay s1 of
           None \<Rightarrow> (None, s1)
         | Some inner \<Rightarrow>
             let sized = inner\<lparr>style := (style inner)
                   \<lparr>css_fontSize :=
                      font_size (or_else (subtitleSize conf) ''medium'')
                        (css_fontSize (style inner)),
                    css_color := or_else (subtitleColor conf) ''#ffffff''\<rparr>\<rparr>
             in (case overlay s1 of
                  None \<Rightarrow> (Some TypeError, s1\<lparr>innerOverlay := Some sized\<rparr>)
                | Some outer \<Rightarrow>
                    let styled = sized\<lparr>style := inner_style conf (style sized)\<rparr>;
                        shown = (case activeCue s1 of
                                   None \<Rightarrow> styled
                                 | Some a \<Rightarrow> styled\<lparr>innerHTML := br_text (text' a)\<rparr>)
                    in (None, s1\<lparr>overlay := Some (outer\<lparr>style := outer_style conf (style outer)\<rparr>),
                                 innerOverlay := Some shown\<rparr>)))"

datatype stored =
    NoStorage
  | NoPreference
  | Unparsable
  | Parsed config

text \<open>
  What \<open>loadSettings\<close> finds: no \<open>window.storage\<close>; no stored preference; a preference
  that \<open>JSON.parse\<close> rejects or parses to \<open>null\<close> (both raise inside the \<open>try\<close>); or a
  parsed object, of which the four fields are read. Field values are strings.
\<close>

definition merge_field :: "string option \<Rightarrow> string option \<Rightarrow> string option" where
  \<comment> \<open>\<open>if (parsed.f) this.settings.f = parsed.f\<close>\<close>
  "merge_field new old = (case new of None \<Rightarrow> old | Some x \<Rightarrow> if x = [] then old else Some x)"

definition loadSettings :: "stored \<Rightarrow> mgr \<Rightarrow> mgr" where
  "loadSettings st s =
     (case st of
        NoStorage \<Rightarrow> s
      | NoPreference \<Rightarrow> s
      | Unparsable \<Rightarrow> say Error ''[SubtitleManager] Error loading settings:'' s
      | Parsed p \<Rightarrow>
          say Log ''[SubtitleManager] Loaded settings:''
            (s\<lparr>settings :=
                 \<lparr>subtitleSize = merge_field (subtitleSize p) (subtitleSize (settings s)),
                  subtitleColor = merge_field (subtitleColor p) (subtitleColor (settings s)),
                  subtitlePosition =
                    merge_field (subtitlePosition p) (subtitlePosition (settings s)),
                  subtitleBackground =
                    merge_field (subtitleBackground p) (subtitleBackground (settings s))\<rparr>\<rparr>))"

definition parseSRT :: "string \<Rightarrow> mgr \<Rightarrow> error option \<times> mgr" where
  "parseSRT t s =
     (case exec_all srt_pattern t of
        None \<Rightarrow> (Some Hang, s)
      | Some found \<Rightarrow>
          (None, s\<lparr>cues := cues s @ alloc (mk_cue 2 3 4) (next_cid s) found,
                    next_cid := next_cid s + length found\<rparr>))"

definition parseVTT :: "string \<Rightarrow> mgr \<Rightarrow> error option \<times> mgr" where
  "parseVTT t s =
     (case exec_all vtt_pattern t of
        None \<Rightarrow> (Some Hang, s)
      | Some found \<Rightarrow>
          (None, s\<lparr>cues := cues s @ alloc (mk_cue 1 2 3) (next_cid s) found,
                    next_cid := next_cid s + length found\<rparr>))"

definition parseSubtitles :: "string \<Rightarrow> string \<Rightarrow> mgr \<Rightarrow> error option \<times> mgr" where
  "parseSubtitles t format s =
     (let s1 = s\<lparr>cues := []\<rparr>;
          normalizedText = normalize t
      in case (if format = ''srt'' then parseSRT normalizedText s1
               else parseVTT normalizedText s1) of
           (Some e, s2) \<Rightarrow> (Some e, s2)
         | (None, s2) \<Rightarrow>
             applyStyles (Some (settings s2))
               (say Log (''[SubtitleManager] Parsed '' @ show_nat (length (cues s2)) @ '' cues'') s2))"

record auth =
  serverAddress :: string
  accessToken :: string

text \<open>A track: its declared codec, and its index, an integer below \<open>2^53\<close>.\<close>

record track =
  Codec :: "string option"
  Index :: nat

record ident =
  Id :: string

definition track_format :: "track \<Rightarrow> string" where
  "track_format tr =
     (let format = toLowerCase (or_else (Codec tr) ''vtt'');
          format = (if format = ''subrip'' then ''srt'' else format)
      in if format \<noteq> ''srt'' then ''vtt'' else format)"

definition track_url :: "track \<Rightarrow> ident \<Rightarrow> ident \<Rightarrow> auth \<Rightarrow> string" where
  "track_url tr item mediaSource userAuth =
     serverAddress userAuth @ ''/Videos/'' @ Id item @ ''/'' @ Id mediaSource @ ''/Subtitles/''
       @ show_nat (Index tr) @ ''/Stream.'' @ track_format tr
       @ ''?api_key='' @ accessToken userAuth
       @ ''?api_key='' @ accessToken userAuth"

definition loadTrack ::
  "track \<Rightarrow> ident \<Rightarrow> ident \<Rightarrow> auth option \<Rightarrow> stored \<Rightarrow> auth option \<Rightarrow> mgr
     \<Rightarrow> error option \<times> mgr" where
  \<comment> \<open>\<open>st\<close> is what the preference store holds, \<open>storedAuth\<close> what
      \<open>JellyfinAPI.getStoredAuth()\<close> returns\<close>
  "loadTrack tr item mediaSource au st storedAuth s =
     (let s1 = s\<lparr>cues := [], isEnabled := True\<rparr>
      in case overlay s1 of
           None \<Rightarrow> (Some TypeError, s1)
         | Some outer \<Rightarrow>
             (case applyStyles None
                     (loadSettings st
                        (s1\<lparr>overlay := Some (outer\<lparr>style := (style outer)\<lparr>css_display := ''flex''\<rparr>\<rparr>)\<rparr>)) of
                (Some e, s2) \<Rightarrow> (Some e, s2)
              | (None, s2) \<Rightarrow>
                  (case (case au of None \<Rightarrow> storedAuth | Some a \<Rightarrow> Some a) of
                     None \<Rightarrow> (None, say Error ''[SubtitleManager] No auth data found'' s2)
                   | Some userAuth \<Rightarrow>
                       let url = track_url tr item mediaSource userAuth
                       in (None,
                           (say Log (''[SubtitleManager] Fetching subtitles from: '' @ url) s2)
                             \<lparr>requests := requests s2 @ [(url, track_format tr)]\<rparr>))))"

definition fetch_success :: "string \<Rightarrow> string \<Rightarrow> mgr \<Rightarrow> error option \<times> mgr" where
  \<comment> \<open>the \<open>success\<close> callback of a request, with the format it closed over\<close>
  "fetch_success data format s =
     parseSubtitles data format (say Log ''[SubtitleManager] Subtitles fetched successfully'' s)"

definition fetch_error :: "string \<Rightarrow> bool \<Rightarrow> mgr \<Rightarrow> error option \<times> mgr" where
  \<comment> \<open>the \<open>error\<close> callback; \<open>err\<close> is the error as text, \<open>dbg\<close> whether
      \<open>window.debugOverlay\<close> exists\<close>
  "fetch_error err dbg s =
     (let s1 = say Error (''[SubtitleManager] Failed to fetch subtitles: '' @ err) s
      in (None, if dbg then s1\<lparr>debugOverlay := debugOverlay s1 @ [''Fetch failed: '' @ err]\<rparr>
                else s1))"

definition disable :: "mgr \<Rightarrow> error option \<times> mgr" where
  "disable s =
     (let s1 = s\<lparr>isEnabled := False, cues := []\<rparr>
      in case overlay s1 of
           None \<Rightarrow> (None, s1)
         | Some outer \<Rightarrow>
             let s2 = s1\<lparr>overlay := Some (outer\<lparr>style := (style outer)\<lparr>css_display := ''none''\<rparr>\<rparr>)\<rparr>
             in (case innerOverlay s2 of
                  None \<Rightarrow> (Some TypeError, s2)
                | Some inner \<Rightarrow> (None, s2\<lparr>innerOverlay := Some (inner\<lparr>innerHTML := []\<rparr>)\<rparr>)))"

definition update :: "jsnum \<Rightarrow> mgr \<Rightarrow> error option \<times> mgr" where
  "update timeMs s =
     (if \<not> isEnabled s \<or> cues s = [] then (None, s)
      else
        case find (\<lambda>cue. js_ge timeMs (start cue) \<and> js_le timeMs (end' cue)) (cues s) of
          Some currentCue \<Rightarrow>
            if map_option cid (activeCue s) \<noteq> Some (cid currentCue) then
              let s1 = (say Log (''[SubtitleManager] Displaying cue: '' @ text' currentCue) s)
                         \<lparr>activeCue := Some currentCue\<rparr>
              in (case innerOverlay s1 of
                   None \<Rightarrow> (Some TypeError, s1)
                 | Some inner \<Rightarrow>
                     (None, s1\<lparr>innerOverlay :=
                                 Some (inner\<lparr>innerHTML := br_text (text' currentCue),
                                             classList := removeAll ''hide'' (classList inner)\<rparr>)\<rparr>))
            else (None, s)
        | None \<Rightarrow>
            if activeCue s \<noteq> None then
              let s1 = (say Log ''[SubtitleManager] Clearing cue'' s)\<lparr>activeCue := None\<rparr>
              in (case innerOverlay s1 of
                   None \<Rightarrow> (Some TypeError, s1)
                 | Some inner \<Rightarrow>
                     (None, s1\<lparr>innerOverlay :=
                                 Some (inner\<lparr>innerHTML := [],
                                             classList :=
                                               (if ''hide'' \<in> set (classList inner) then classList inner
                                                else classList inner @ [''hide''])\<rparr>)\<rparr>))
            else (None, s))"

definition destroy :: "mgr \<Rightarrow> error option \<times> mgr" where
  "destroy s =
     (case disable s of
        (Some e, s1) \<Rightarrow> (Some e, s1)
      | (None, s1) \<Rightarrow>
          (None, s1\<lparr>overlay := None, innerOverlay := None, cues := [], activeCue := None\<rparr>))"

section \<open>Calls on an instance\<close>

datatype call =
    LoadTrack track ident ident "auth option" stored "auth option"
  | FetchSuccess string string
  | FetchError string bool
  | Update jsnum
  | ApplyStyles "config option"
  | LoadSettings stored
  | Disable
  | Destroy

fun step :: "call \<Rightarrow> mgr \<Rightarrow> error option \<times> mgr" where
  "step (LoadTrack tr item mediaSource au st storedAuth) s =
     loadTrack tr item mediaSource au st storedAuth s"
| "step (FetchSuccess data format) s = fetch_success data format s"
| "step (FetchError err dbg) s = fetch_error err dbg s"
| "step (Update t) s = update t s"
| "step (ApplyStyles arg) s = applyStyles arg s"
| "step (LoadSettings st) s = (None, loadSettings st s)"
| "step Disable s = disable s"
| "step Destroy s = destroy s"

fun run :: "call list \<Rightarrow> mgr \<Rightarrow> mgr" where
  \<comment> \<open>a sequence of calls, each from its own turn of the event loop: a call that raises
      leaves the instance as it was when it raised, and the next call finds it so\<close>
  "run [] s = s"
| "run (c # cs) s = run cs (snd (step c s))"


section \<open>Notions used in the statements\<close>

definition digit :: "nat \<Rightarrow> char" where
  "digit d = char_of (48 + d)"

definition two :: "nat \<Rightarrow> string" where
  "two n = [digit (n div 10), digit (n mod 10)]"

definition three :: "nat \<Rightarrow> string" where
  "three n = [digit (n div 100), digit (n div 10 mod 10), digit (n mod 10)]"

definition timestamp :: "char \<Rightarrow> nat \<Rightarrow> nat \<Rightarrow> nat \<Rightarrow> nat \<Rightarrow> string" where
  \<comment> \<open>the fixed-width spelling \<open>HH:MM:SS\<close>, the separator, \<open>mmm\<close>\<close>
  "timestamp sep h m sec ms' = two h @ '':'' @ two m @ '':'' @ two sec @ [sep] @ three ms'"

definition unsigned :: "string \<Rightarrow> string" where
  \<comment> \<open>a field without its leading white space and one leading sign\<close>
  "unsigned f =
     (case dropWhile is_space f of
        [] \<Rightarrow> []
      | c # cs \<Rightarrow> if c = CHR ''-'' \<or> c = CHR ''+'' then cs else c # cs)"

definition no_integer :: "string \<Rightarrow> bool" where
  \<comment> \<open>the field does not start with a digit\<close>
  "no_integer f \<longleftrightarrow> (case unsigned f of [] \<Rightarrow> True | c # cs \<Rightarrow> \<not> is_digit c)"

definition no_decimal :: "string \<Rightarrow> bool" where
  \<comment> \<open>the field starts with neither a digit, nor a period and a digit, nor \<open>Infinity\<close>\<close>
  "no_decimal f \<longleftrightarrow>
     (case unsigned f of
        [] \<Rightarrow> True
      | c # cs \<Rightarrow>
          \<not> is_digit c
          \<and> \<not> (c = CHR ''.'' \<and> (case cs of [] \<Rightarrow> False | d # ds \<Rightarrow> is_digit d))
          \<and> \<not> starts_with ''Infinity'' (c # cs))"

definition non_numeric :: "string \<Rightarrow> bool" where
  \<comment> \<open>read off the string: split at the colons (after the first comma has become a
      period), it has fewer than three fields, or the hours or the minutes do not start
      with a digit, or the seconds do not start with a number\<close>
  "non_numeric ts \<longleftrightarrow>
     (let parts = split_on CHR '':'' (replace_first CHR '','' CHR ''.'' ts)
      in length parts < 3 \<or> no_integer (parts ! 0) \<or> no_integer (parts ! 1)
         \<or> no_decimal (parts ! 2))"


definition payload :: string where
  \<comment> \<open>one cue with settings after the end timestamp\<close>
  "payload = ''00:00:01.000 --> 00:00:02.500 align:center'' @ [LF] @ ''Hi'' @ [LF, LF]"

definition live :: "mgr \<Rightarrow> bool" where
  \<comment> \<open>the instance holds both elements of its surface\<close>
  "live s \<longleftrightarrow> overlay s \<noteq> None \<and> innerOverlay s \<noteq> None"

fun is_load :: "call \<Rightarrow> bool" where
  "is_load (LoadTrack tr item mediaSource au st storedAuth) = True"
| "is_load _ = False"

fun reuse_free :: "call list \<Rightarrow> bool" where
  \<comment> \<open>no track is loaded after \<open>destroy()\<close>\<close>
  "reuse_free [] = True"
| "reuse_free (c # cs) =
     (if c = Destroy then list_all (\<lambda>c'. \<not> is_load c') cs else reuse_free cs)"

text \<open>Concrete inputs.\<close>

definition track0 :: track where
  "track0 = \<lparr>Codec = None, Index = 0\<rparr>"

definition track1 :: track where
  "track1 = \<lparr>Codec = Some ''subrip'', Index = 2\<rparr>"

definition auth0 :: auth where
  "auth0 = \<lparr>serverAddress = ''http://host'', accessToken = ''tok''\<rparr>"

definition load0 :: call where
  "load0 = LoadTrack track0 \<lparr>Id = ''i''\<rparr> \<lparr>Id = ''m''\<rparr> (Some auth0) NoStorage None"

definition cue0 :: cue where
  "cue0 = \<lparr>cid = 0, start = Fin False 1000, end' = Fin False 2500, text' = ''Hi''\<rparr>"

definition full0 :: config where
  "full0 = \<lparr>subtitleSize = Some ''small'', subtitleColor = Some ''#ff0000'',
            subtitlePosition = Some ''top'', subtitleBackground = Some ''none''\<rparr>"

definition partial0 :: config where
  "partial0 = \<lparr>subtitleSize = Some ''large'', subtitleColor = None, subtitlePosition = None,
               subtitleBackground = None\<rparr>"

section \<open>Properties of the number model\<close>

lemma floor_rat_numeral_div: "\<lfloor>(numeral a :: rat) / numeral b\<rfloor> = numeral a div numeral b"
  using floor_divide_of_int_eq [of "numeral a" "numeral b", where ?'a = rat] by simp

lemma ceiling_rat_numeral_div:
  "\<lceil>(numeral a :: rat) / numeral b\<rceil> = - ((- numeral a) div numeral b)"
  using floor_divide_of_int_eq [of "- numeral a" "numeral b", where ?'a = rat]
  by (simp add: ceiling_def)

lemmas number_eval =
  rd_def ulp_exp_def ilog2_def compute_floorlog pow2_def round_half_even_def to_double_def
  overflows_def num_def floor_rat_numeral_div ceiling_rat_numeral_div Let_def

lemmas string_eval =
  parseTime_def parseFloat_def parseInt10_def field_def sign_of_def is_digit_def is_space_def
  starts_with_def exponent_part_def pow10_def Let_def

lemma pow2_pos: "0 < pow2 k"
  by (simp add: pow2_def)

lemma pow2_add: "pow2 (a + b) = pow2 a * pow2 b"
proof -
  have "pow2 k = 2 powi k" for k
    by (simp add: pow2_def power_int_def inverse_eq_divide power_one_over)
  then show ?thesis by (simp add: power_int_add)
qed

lemma pow2_mono: "a \<le> b \<Longrightarrow> pow2 a \<le> pow2 b"
proof -
  assume "a \<le> b"
  then obtain d where d: "b = a + d" "0 \<le> d"
    by (metis add.commute diff_add_cancel diff_ge_0_iff_ge)
  have "1 \<le> pow2 d" using d(2) by (simp add: pow2_def)
  then show ?thesis using pow2_pos [of a] by (simp add: d(1) pow2_add)
qed

lemma pow2_less_imp: "pow2 a < pow2 b \<Longrightarrow> a < b"
  using pow2_mono [of b a] by (cases "a < b") auto

lemma ilog2_bounds:
  assumes "0 < q"
  shows "pow2 (ilog2 q) \<le> q \<and> q < pow2 (ilog2 q + 1)"
proof (cases "1 \<le> q")
  case True
  define n where "n = nat \<lfloor>q\<rfloor>"
  define L where "L = floorlog 2 n"
  have n1: "1 \<le> n" using True by (simp add: n_def le_floor_iff le_nat_iff)
  have b: "2 ^ (L - 1) \<le> n \<and> n < 2 ^ L"
    unfolding L_def using floorlog_bounds [of n 2] n1 by simp
  have Lpos: "0 < L" using b n1 by (cases L) auto
  have e: "ilog2 q = int L - 1" using True by (simp add: ilog2_def n_def L_def)
  have nq: "of_nat n \<le> q" "q < of_nat n + 1"
    using True floor_correct [of q] by (simp_all add: n_def)
  have a1: "(2::rat) ^ (L - 1) \<le> of_nat n"
    using b by (metis of_nat_le_iff of_nat_numeral of_nat_power)
  have a2: "of_nat n + 1 \<le> (2::rat) ^ L"
  proof -
    have "n + 1 \<le> 2 ^ L" using b by simp
    then have "(of_nat (n + 1) :: rat) \<le> of_nat (2 ^ L)" by (simp only: of_nat_le_iff)
    then show ?thesis by simp
  qed
  have p1: "pow2 (int L - 1) = 2 ^ (L - 1)" using Lpos by (simp add: pow2_def nat_diff_distrib)
  have p2: "pow2 (int L - 1 + 1) = 2 ^ L" by (simp add: pow2_def)
  show ?thesis unfolding e p1 p2 using a1 a2 nq by linarith
next
  case False
  define x where "x = 1 / q"
  define m where "m = nat (\<lceil>x\<rceil> - 1)"
  define L where "L = floorlog 2 m"
  have x1: "1 < x" using False assms by (simp add: x_def)
  have "1 < \<lceil>x\<rceil>" using x1 by (simp only: less_ceiling_iff of_int_1)
  then have c2: "2 \<le> \<lceil>x\<rceil>" by linarith
  then have m1: "1 \<le> m" unfolding m_def by linarith
  have mi: "int m = \<lceil>x\<rceil> - 1" using c2 unfolding m_def by linarith
  have b: "2 ^ (L - 1) \<le> m \<and> m < 2 ^ L"
    unfolding L_def using floorlog_bounds [of m 2] m1 by simp
  have Lpos: "0 < L" using b m1 by (cases L) auto
  have e: "ilog2 q = - int L" using False by (simp add: ilog2_def m_def L_def x_def)
  have mx: "of_nat m < x" "x \<le> of_nat m + 1"
  proof -
    have "of_int (\<lceil>x\<rceil> - 1) < x" by (simp add: ceiling_correct)
    then show "of_nat m < x" using mi by (metis of_int_of_nat_eq)
    have "x \<le> of_int \<lceil>x\<rceil>" by (rule le_of_int_ceiling)
    also have "of_int \<lceil>x\<rceil> = (of_int (int m) :: rat) + 1" using mi by simp
    finally show "x \<le> of_nat m + 1" by simp
  qed
  have lo: "(2::rat) ^ (L - 1) < x"
  proof -
    have "(2::rat) ^ (L - 1) \<le> of_nat m"
      using b by (metis of_nat_le_iff of_nat_numeral of_nat_power)
    then show ?thesis using mx by linarith
  qed
  have hi: "x \<le> (2::rat) ^ L"
  proof -
    have "m + 1 \<le> 2 ^ L" using b by simp
    then have "(of_nat (m + 1) :: rat) \<le> of_nat (2 ^ L)" by (simp only: of_nat_le_iff)
    then have "(of_nat m :: rat) + 1 \<le> 2 ^ L" by simp
    then show ?thesis using mx by linarith
  qed
  have qx: "q = 1 / x" by (simp add: x_def)
  have p1: "pow2 (- int L) = 1 / 2 ^ L" using Lpos by (simp add: pow2_def)
  have p2: "pow2 (- int L + 1) = 1 / 2 ^ (L - 1)"
  proof (cases "L = 1")
    case True
    then show ?thesis by (simp add: pow2_def)
  next
    case False
    then have "1 < L" using Lpos by simp
    then have "\<not> 0 \<le> - int L + 1" "nat (- (- int L + 1)) = L - 1" by auto
    then show ?thesis by (simp add: pow2_def)
  qed
  have "1 / 2 ^ L \<le> q" using hi x1 unfolding qx by (simp add: frac_le)
  moreover have "q < 1 / 2 ^ (L - 1)" using lo x1 unfolding qx by (simp add: frac_less2)
  ultimately show ?thesis using e p1 p2 by simp
qed

lemma ilog2_less:
  assumes "0 < q" "q < pow2 k"
  shows "ilog2 q < k"
proof -
  have "pow2 (ilog2 q) < pow2 k" using ilog2_bounds [OF assms(1)] assms(2) by linarith
  then show ?thesis by (rule pow2_less_imp)
qed

lemma ilog2_ge:
  assumes "pow2 k \<le> q"
  shows "k \<le> ilog2 q"
proof -
  have "0 < q" using assms pow2_pos [of k] by linarith
  then have "pow2 k < pow2 (ilog2 q + 1)" using ilog2_bounds [of q] assms by linarith
  then have "k < ilog2 q + 1" by (rule pow2_less_imp)
  then show ?thesis by simp
qed

lemma round_half_even_err: "\<bar>of_int (round_half_even x) - x\<bar> \<le> 1 / 2"
proof -
  have "of_int \<lfloor>x\<rfloor> \<le> x" "x < of_int \<lfloor>x\<rfloor> + 1" using floor_correct [of x] by simp_all
  then show ?thesis by (auto simp: round_half_even_def Let_def)
qed

lemma round_half_even_int: "round_half_even (of_int z) = z"
  by (simp add: round_half_even_def)

lemma round_half_even_nonneg: "0 \<le> x \<Longrightarrow> 0 \<le> round_half_even x"
  by (auto simp: round_half_even_def Let_def)

lemma rd_nonneg: "0 \<le> q \<Longrightarrow> 0 \<le> rd q"
  using pow2_pos [of "ulp_exp q"] by (simp add: rd_def round_half_even_nonneg less_imp_le)

lemma rd_err:
  assumes "0 \<le> q" "q < pow2 k" "- 1021 \<le> k"
  shows "\<bar>rd q - q\<bar> \<le> pow2 (k - 54)"
proof (cases "q = 0")
  case True
  then show ?thesis using pow2_pos [of "k - 54"] by (simp add: rd_def)
next
  case False
  then have q: "0 < q" using assms(1) by simp
  define u where "u = pow2 (ulp_exp q)"
  have u: "0 < u" by (simp add: u_def pow2_pos)
  have "ulp_exp q \<le> k - 53" using ilog2_less [OF q assms(2)] assms(3) by (simp add: ulp_exp_def)
  then have "u \<le> pow2 (k - 53)" unfolding u_def by (rule pow2_mono)
  moreover have "pow2 (k - 53) = 2 * pow2 (k - 54)"
    using pow2_add [of 1 "k - 54"] by (simp add: pow2_def)
  ultimately have uk: "u / 2 \<le> pow2 (k - 54)" by simp
  have "rd q - q = (of_int (round_half_even (q / u)) - q / u) * u"
    using u False by (simp add: rd_def u_def algebra_simps)
  then have "\<bar>rd q - q\<bar> = \<bar>of_int (round_half_even (q / u)) - q / u\<bar> * u"
    using u by (simp add: abs_mult)
  also have "\<dots> \<le> (1 / 2) * u"
    using round_half_even_err [of "q / u"] u by (intro mult_right_mono) simp_all
  finally show ?thesis using uk by simp
qed

lemma not_overflows:
  assumes "0 \<le> q" "q < pow2 1023"
  shows "\<not> overflows q"
proof (cases "q = 0")
  case True
  then show ?thesis by (simp add: overflows_def)
next
  case False
  then have "ilog2 q < 1023" using ilog2_less [of q 1023] assms by simp
  then show ?thesis by (simp add: overflows_def)
qed

lemma rd_nat_exact:
  assumes "n < 2 ^ 53"
  shows "rd (of_nat n) = of_nat n"
proof (cases "n = 0")
  case True
  then show ?thesis by (simp add: rd_def)
next
  case False
  define q :: rat where "q = of_nat n"
  have q: "0 < q" "1 \<le> q" using False by (simp_all add: q_def)
  have "q < pow2 53" using assms unfolding q_def pow2_def by simp
  then have hi: "ilog2 q < 53" using ilog2_less q(1) by blast
  have "pow2 0 \<le> q" using q(2) by (simp add: pow2_def)
  then have lo: "0 \<le> ilog2 q" by (rule ilog2_ge)
  define d where "d = nat (52 - ilog2 q)"
  have ue: "ulp_exp q = - int d" using lo hi by (simp add: ulp_exp_def d_def)
  have pu: "pow2 (ulp_exp q) = 1 / 2 ^ d"
    unfolding ue by (cases "d = 0") (simp_all add: pow2_def)
  have "q / pow2 (ulp_exp q) = of_int (int n * 2 ^ d)" unfolding pu by (simp add: q_def)
  then have "round_half_even (q / pow2 (ulp_exp q)) = int n * 2 ^ d"
    by (simp only: round_half_even_int)
  then have "rd q = of_int (int n * 2 ^ d) * (1 / 2 ^ d)" using q(1) pu by (simp add: rd_def)
  then show ?thesis by (simp add: q_def)
qed

lemma to_double_nat:
  assumes "n < 2 ^ 53"
  shows "to_double sg (of_nat n) = Fin sg (of_nat n)"
proof -
  have "(of_nat n :: rat) < of_nat (2 ^ 53)" using assms by (simp only: of_nat_less_iff)
  also have "(of_nat (2 ^ 53) :: rat) \<le> pow2 1023" by (simp add: pow2_def)
  finally have "\<not> overflows (of_nat n)" by (intro not_overflows) simp_all
  then show ?thesis using rd_nat_exact [OF assms] by (simp add: to_double_def)
qed

lemma to_double_small:
  assumes "0 \<le> q" "q < pow2 1023"
  shows "to_double sg q = Fin sg (rd q)"
  using not_overflows [OF assms] by (simp add: to_double_def)


section \<open>The timestamp parser on malformed input\<close>

lemma js_mul_NaN_right: "js_mul x NaN = NaN"
  by (cases x) simp_all

lemma js_add_NaN_right: "js_add x NaN = NaN"
  by (cases x) simp_all

text \<open>
  C2, as the claim states it, fails: a timestamp whose fields are not numbers is parsed
  to NaN, not to the offset 0.
\<close>

theorem parseTime_nonnumeric_counterexample:
  "parseTime (Some ''ab:cd:ef'') \<noteq> Fin False 0"
  by (simp add: string_eval)

lemma snd_sign_of:
  "snd (sign_of s) =
     (case s of [] \<Rightarrow> [] | c # cs \<Rightarrow> if c = CHR ''-'' \<or> c = CHR ''+'' then cs else c # cs)"
  by (cases s) (simp_all add: sign_of_def)

lemma sign_of_unsigned: "snd (sign_of (dropWhile is_space f)) = unsigned f"
  unfolding unsigned_def by (rule snd_sign_of)

lemma parseInt10_NaN_iff: "parseInt10 f = NaN \<longleftrightarrow> no_integer f"
proof -
  obtain sg where s: "sign_of (dropWhile is_space f) = (sg, unsigned f)"
    using sign_of_unsigned [of f] by (cases "sign_of (dropWhile is_space f)") simp
  show ?thesis
    by (cases "unsigned f") (simp_all add: parseInt10_def s no_integer_def to_double_def)
qed

lemma parseFloat_NaN_iff: "parseFloat f = NaN \<longleftrightarrow> no_decimal f"
proof -
  obtain sg where s: "sign_of (dropWhile is_space f) = (sg, unsigned f)"
    using sign_of_unsigned [of f] by (cases "sign_of (dropWhile is_space f)") simp
  show ?thesis
  proof (cases "unsigned f")
    case Nil
    then show ?thesis by (simp add: parseFloat_def s no_decimal_def starts_with_def)
  next
    case (Cons c cs)
    show ?thesis
    proof (cases "is_digit c")
      case True
      then show ?thesis
        by (simp add: parseFloat_def s Cons no_decimal_def to_double_def Let_def)
    next
      case False
      then show ?thesis
        by (cases cs)
           (auto simp: parseFloat_def s Cons no_decimal_def to_double_def Let_def)
    qed
  qed
qed

lemma undefined_fields:
  "parseInt10 ''undefined'' = NaN" "parseFloat ''undefined'' = NaN"
  by (simp_all add: parseInt10_def parseFloat_def sign_of_def is_space_def is_digit_def
      starts_with_def)

text \<open>
  C2 (amended): a missing or empty timestamp yields the offset 0. A timestamp string that
  lacks one of its three fields, or of which a field does not start with a number (after
  white space and an optional sign), yields NaN, not 0. The parser raises on no string.
\<close>

theorem parseTime_malformed:
  "parseTime None = Fin False 0 \<and> parseTime (Some []) = Fin False 0 \<and>
   (ts \<noteq> [] \<and> non_numeric ts \<longrightarrow> parseTime (Some ts) = NaN)"
proof -
  have "parseTime (Some ts) = NaN" if ne: "ts \<noteq> []" and nn: "non_numeric ts"
  proof -
    define parts where "parts = split_on CHR '':'' (replace_first CHR '','' CHR ''.'' ts)"
    have p: "parseTime (Some ts) =
             js_mul (js_add (js_add (js_mul (parseInt10 (field parts 0)) (num 3600))
                                    (js_mul (parseInt10 (field parts 1)) (num 60)))
                            (parseFloat (field parts 2))) (num 1000)"
      using ne by (simp add: parseTime_def parts_def Let_def)
    have "parseInt10 (field parts 0) = NaN \<or> parseInt10 (field parts 1) = NaN
          \<or> parseFloat (field parts 2) = NaN"
    proof (cases "length parts < 3")
      case True
      then show ?thesis by (simp add: field_def undefined_fields)
    next
      case False
      then have "0 < length parts" "1 < length parts" "2 < length parts" by linarith+
      then have "field parts 0 = parts ! 0" "field parts 1 = parts ! 1"
        "field parts 2 = parts ! 2"
        by (simp_all add: field_def)
      then show ?thesis
        using nn False by (simp add: non_numeric_def parts_def [symmetric]
            parseInt10_NaN_iff parseFloat_NaN_iff Let_def)
    qed
    then show ?thesis unfolding p by (auto simp: js_mul_NaN_right js_add_NaN_right)
  qed
  then show ?thesis by (simp add: parseTime_def)
qed

theorem parseTime_malformed_witness:
  "''12:xx:01.5'' \<noteq> [] \<and> non_numeric ''12:xx:01.5'' \<and> parseTime (Some ''12:xx:01.5'') = NaN"
proof -
  have "non_numeric ''12:xx:01.5''"
    by (simp add: non_numeric_def no_integer_def no_decimal_def unsigned_def is_space_def
        is_digit_def starts_with_def)
  then show ?thesis using parseTime_malformed [of "''12:xx:01.5''"] by simp
qed

text \<open>
  A field that starts with a number and goes on with other characters is read by that
  number: such a timestamp is not rejected.
\<close>

lemma parseTime_lenient_example:
  "\<not> non_numeric ''1x:00:00'' \<and> parseTime (Some ''1x:00:00'') = Fin False 3600000"
proof -
  have n: "\<not> non_numeric ''1x:00:00''"
    by (simp add: non_numeric_def no_integer_def no_decimal_def unsigned_def is_space_def
        is_digit_def starts_with_def)
  have "parseTime (Some ''1x:00:00'') =
        js_mul (js_add (js_add (js_mul (to_double False 1) (num 3600))
                               (js_mul (to_double False 0) (num 60)))
                       (to_double False 0)) (num 1000)"
    by (simp add: string_eval)
  also have "\<dots> = Fin False 3600000" by (simp add: number_eval)
  finally show ?thesis using n by simp
qed

section \<open>The timestamp parser on the two grammars\<close>

lemma of_char_digit: "d < 10 \<Longrightarrow> of_char (digit d) = 48 + d"
  by (simp add: digit_def)

lemma is_digit_digit: "d < 10 \<Longrightarrow> is_digit (digit d)"
  by (simp add: is_digit_def of_char_digit)

lemma is_digit_not:
  "is_digit c \<Longrightarrow>
     c \<noteq> CHR '':'' \<and> c \<noteq> CHR '','' \<and> c \<noteq> CHR ''.'' \<and> c \<noteq> CHR ''-'' \<and> c \<noteq> CHR ''+''
     \<and> c \<noteq> CHR ''I'' \<and> \<not> is_space c"
  by (auto simp: is_digit_def is_space_def)

lemma replace_first_append:
  "a \<notin> set xs \<Longrightarrow> replace_first a b (xs @ ys) = xs @ replace_first a b ys"
  by (induction xs) auto

lemma replace_first_absent: "a \<notin> set xs \<Longrightarrow> replace_first a b xs = xs"
  by (induction xs) auto

lemma split_on_append:
  "sep \<notin> set xs \<Longrightarrow> split_on sep (xs @ sep # ys) = xs # split_on sep ys"
  by (induction xs) (auto split: list.splits)

lemma split_on_absent: "sep \<notin> set xs \<Longrightarrow> split_on sep xs = [xs]"
  by (induction xs) (auto split: list.splits)

lemma two_digits: "n < 100 \<Longrightarrow> \<forall>c \<in> set (two n). is_digit c"
proof -
  assume "n < 100"
  then have "n div 10 < 10" "n mod 10 < 10" by simp_all
  then show ?thesis by (simp add: two_def is_digit_digit)
qed

lemma three_digits: "n < 1000 \<Longrightarrow> \<forall>c \<in> set (three n). is_digit c"
proof -
  assume "n < 1000"
  then have "n div 100 < 10" "n div 10 mod 10 < 10" "n mod 10 < 10" by simp_all
  then show ?thesis by (simp add: three_def is_digit_digit)
qed

lemma dec_val_two: "n < 100 \<Longrightarrow> dec_val acc (two n) = 100 * acc + n"
proof -
  assume "n < 100"
  then have d: "n div 10 < 10" "n mod 10 < 10" by simp_all
  have "dec_val acc (two n) = 10 * (10 * acc + n div 10) + n mod 10"
    by (simp add: two_def of_char_digit [OF d(1)] of_char_digit [OF d(2)])
  also have "\<dots> = 100 * acc + n" by presburger
  finally show ?thesis .
qed

lemma three_value: "100 * (n div 100) + 10 * (n div 10 mod 10) + n mod 10 = (n::nat)"
proof -
  define X D Y Z
    where "X = n div 100" and "D = n div 10" and "Y = n div 10 mod 10" and "Z = n mod 10"
  have "n div 100 = n div 10 div 10" using div_mult2_eq [of n 10 10] by simp
  then have a: "X = D div 10" by (simp add: X_def D_def)
  have "10 * (D div 10) + D mod 10 = D" by (rule mult_div_mod_eq)
  then have b: "10 * X + Y = D" by (simp add: a Y_def D_def)
  have "10 * (n div 10) + n mod 10 = n" by (rule mult_div_mod_eq)
  then have c: "10 * D + Z = n" by (simp add: D_def Z_def)
  have "100 * X + 10 * Y + Z = n" using b c by linarith
  then show ?thesis by (simp add: X_def Y_def Z_def)
qed

lemma dec_val_three: "n < 1000 \<Longrightarrow> dec_val acc (three n) = 1000 * acc + n"
proof -
  assume "n < 1000"
  then have d: "n div 100 < 10" "n div 10 mod 10 < 10" "n mod 10 < 10" by simp_all
  have "dec_val acc (three n) = 10 * (10 * (10 * acc + n div 100) + n div 10 mod 10) + n mod 10"
    by (simp add: three_def of_char_digit [OF d(1)] of_char_digit [OF d(2)]
        of_char_digit [OF d(3)])
  also have "\<dots> = 1000 * acc + (100 * (n div 100) + 10 * (n div 10 mod 10) + n mod 10)"
    by simp
  finally show ?thesis by (simp only: three_value)
qed

lemma dec_val_append: "dec_val acc (xs @ ys) = dec_val (dec_val acc xs) ys"
  by (induction xs arbitrary: acc) auto

lemma digits_exclude:
  assumes "\<forall>c \<in> set xs. is_digit c"
  shows "CHR '':'' \<notin> set xs" and "CHR '','' \<notin> set xs"
  using assms by (auto simp: is_digit_def)

lemma fields_of_timestamp:
  assumes "h < 100" "m < 100" "s < 100" "f < 1000" "sep = CHR '','' \<or> sep = CHR ''.''"
  shows "split_on CHR '':'' (replace_first CHR '','' CHR ''.'' (timestamp sep h m s f))
         = [two h, two m, two s @ ''.'' @ three f]"
proof -
  have dh: "\<forall>c \<in> set (two h). is_digit c" and dm: "\<forall>c \<in> set (two m). is_digit c"
    and ds: "\<forall>c \<in> set (two s). is_digit c" and df: "\<forall>c \<in> set (three f). is_digit c"
    using assms two_digits three_digits by simp_all
  define P where "P = two h @ '':'' @ two m @ '':'' @ two s"
  have nc: "CHR '','' \<notin> set P"
    using digits_exclude(2) [OF dh] digits_exclude(2) [OF dm] digits_exclude(2) [OF ds]
    by (simp add: P_def)
  have nf: "CHR '','' \<notin> set (three f)" using digits_exclude(2) [OF df] .
  have "replace_first CHR '','' CHR ''.'' (sep # three f) = CHR ''.'' # three f"
    using assms(5) nf by (auto simp: replace_first_absent)
  then have r: "replace_first CHR '','' CHR ''.'' (timestamp sep h m s f) = P @ ''.'' @ three f"
    using replace_first_append [OF nc, of "CHR ''.''" "sep # three f"]
    by (simp add: timestamp_def P_def)
  have c1: "CHR '':'' \<notin> set (two h)" and c2: "CHR '':'' \<notin> set (two m)"
    and c3: "CHR '':'' \<notin> set (two s @ ''.'' @ three f)"
    using digits_exclude(1) [OF dh] digits_exclude(1) [OF dm] digits_exclude(1) [OF ds]
      digits_exclude(1) [OF df] by simp_all
  have "split_on CHR '':'' (P @ ''.'' @ three f)
        = two h # split_on CHR '':'' (two m @ CHR '':'' # (two s @ ''.'' @ three f))"
    using split_on_append [OF c1, of "two m @ CHR '':'' # (two s @ ''.'' @ three f)"]
    by (simp add: P_def)
  also have "\<dots> = two h # two m # split_on CHR '':'' (two s @ ''.'' @ three f)"
    using split_on_append [OF c2] by simp
  also have "\<dots> = [two h, two m, two s @ ''.'' @ three f]"
    using split_on_absent [OF c3] by simp
  finally show ?thesis using r by simp
qed

lemma parseInt10_two:
  assumes "n < 100"
  shows "parseInt10 (two n) = Fin False (of_nat n)"
proof -
  have d: "is_digit (digit (n div 10))" "is_digit (digit (n mod 10))"
    using assms by (simp_all add: is_digit_digit)
  have "parseInt10 (two n) = to_double False (of_nat (dec_val 0 (two n)))"
    using d is_digit_not [OF d(1)]
    by (simp add: parseInt10_def two_def sign_of_def)
  also have "\<dots> = to_double False (of_nat n)" using assms by (simp add: dec_val_two)
  also have "\<dots> = Fin False (of_nat n)" using assms by (intro to_double_nat) simp
  finally show ?thesis .
qed

lemma parseFloat_seconds:
  assumes "s < 100" "f < 1000"
  shows "parseFloat (two s @ CHR ''.'' # three f)
         = to_double False (of_nat (1000 * s + f) / 1000)"
proof -
  have d: "is_digit (digit (s div 10))" "is_digit (digit (s mod 10))"
    "is_digit (digit (f div 100))" "is_digit (digit (f div 10 mod 10))" "is_digit (digit (f mod 10))"
    using assms by (simp_all add: is_digit_digit)
  have nd: "\<not> is_digit CHR ''.''" by (simp add: is_digit_def)
  have v: "dec_val 0 (two s @ three f) = 1000 * s + f"
    using assms by (simp add: dec_val_append dec_val_two dec_val_three)
  have "parseFloat (two s @ CHR ''.'' # three f)
        = to_double False (of_nat (dec_val 0 (two s @ three f)) * pow10 (- 3))"
    using d nd is_digit_not [OF d(1)]
    by (simp add: parseFloat_def two_def three_def sign_of_def starts_with_def exponent_part_def)
  then show ?thesis by (simp add: v pow10_def)
qed


lemma num_small: "n < 2 ^ 53 \<Longrightarrow> num n = Fin False (of_nat n)"
  by (simp add: num_def to_double_nat)

lemma mul_nat_exact:
  assumes "a * b < 2 ^ 53"
  shows "js_mul (Fin False (of_nat a)) (Fin False (of_nat b)) = Fin False (of_nat (a * b))"
  using to_double_nat [OF assms, of False] by simp

lemma add_nat_exact:
  assumes "a + b < 2 ^ 53"
  shows "js_add (Fin False (of_nat a)) (Fin False (of_nat b)) = Fin False (of_nat (a + b))"
  using to_double_nat [OF assms, of False] by simp

lemma parseTime_timestamp:
  assumes "h < 100" "m < 100" "s < 100" "f < 1000" "sep = CHR '','' \<or> sep = CHR ''.''"
  shows "parseTime (Some (timestamp sep h m s f)) =
         Fin False (rd (rd (of_nat (h * 3600 + m * 60) + rd (of_nat (1000 * s + f) / 1000)) * 1000))"
proof -
  define q :: rat where "q = of_nat (1000 * s + f) / 1000"
  define b where "b = h * 3600 + m * 60"
  have ne: "timestamp sep h m s f \<noteq> []" by (simp add: timestamp_def two_def)
  have hb: "h * 3600 < 2 ^ 53" "m * 60 < 2 ^ 53" "h * 3600 + m * 60 < 2 ^ 53"
    using assms by simp_all
  have q0: "0 \<le> q" by (simp add: q_def)
  have q1: "q < 100"
  proof -
    have "1000 * s + f < 100000" using assms by simp
    then have "(of_nat (1000 * s + f) :: rat) < of_nat 100000" by (simp only: of_nat_less_iff)
    then show ?thesis by (simp add: q_def)
  qed
  have e1: "\<bar>rd q - q\<bar> \<le> pow2 (7 - 54)" using q0 q1 by (intro rd_err) (simp_all add: pow2_def)
  have p1: "pow2 (7 - 54) \<le> 1" by (simp add: pow2_def)
  have r1: "0 \<le> rd q" "rd q < 101"
    using rd_nonneg [OF q0] e1 q1 p1 by linarith+
  have bb: "(of_nat b :: rat) \<le> 362340"
  proof -
    have "b \<le> 362340" using assms by (simp add: b_def)
    then have "(of_nat b :: rat) \<le> of_nat 362340" by (simp only: of_nat_le_iff)
    then show ?thesis by simp
  qed
  define x where "x = of_nat b + rd q"
  have x0: "0 \<le> x" "x < 362441" using r1 bb unfolding x_def by linarith+
  have e2: "\<bar>rd x - x\<bar> \<le> pow2 (19 - 54)" using x0 by (intro rd_err) (simp_all add: pow2_def)
  have p2: "pow2 (19 - 54) \<le> 1" by (simp add: pow2_def)
  have r2: "0 \<le> rd x" "rd x < 362442" using rd_nonneg [OF x0(1)] e2 x0 p2 by linarith+
  define y where "y = rd x * 1000"
  have y0: "0 \<le> y" "y < 362442000" using r2 unfolding y_def by linarith+
  have sec: "to_double False q = Fin False (rd q)"
    using q0 q1 by (intro to_double_small) (simp_all add: pow2_def)
  have sx: "to_double False x = Fin False (rd x)"
    using x0 by (intro to_double_small) (simp_all add: pow2_def)
  have sy: "to_double False y = Fin False (rd y)"
    using y0 by (intro to_double_small) (simp_all add: pow2_def)
  have base: "js_add (js_mul (Fin False (of_nat h)) (num 3600)) (js_mul (Fin False (of_nat m)) (num 60))
              = Fin False (of_nat b)"
    using mul_nat_exact [of h 3600] mul_nat_exact [of m 60] add_nat_exact [of "h * 3600" "m * 60"] hb
    by (simp add: num_small b_def)
  have "parseTime (Some (timestamp sep h m s f)) =
        js_mul (js_add (js_add (js_mul (Fin False (of_nat h)) (num 3600))
                               (js_mul (Fin False (of_nat m)) (num 60)))
                       (to_double False q)) (num 1000)"
    using ne fields_of_timestamp [OF assms] assms
    by (simp add: parseTime_def field_def parseInt10_two parseFloat_seconds q_def)
  also have "\<dots> = js_mul (js_add (Fin False (of_nat b)) (Fin False (rd q))) (Fin False 1000)"
    using num_small [of 1000] by (simp add: base sec)
  also have "\<dots> = js_mul (Fin False (rd x)) (Fin False 1000)" using sx by (simp add: x_def)
  also have "\<dots> = Fin False (rd y)" using sy by (simp add: y_def)
  finally show ?thesis by (simp add: y_def x_def b_def q_def)
qed

lemma rounding_bound:
  assumes "h < 100" "m < 100" "s < 100" "f < 1000"
  defines "v \<equiv> rd (rd (of_nat (h * 3600 + m * 60) + rd (of_nat (1000 * s + f) / 1000)) * 1000)"
  shows "0 \<le> v \<and> \<bar>v - of_nat (((h * 60 + m) * 60 + s) * 1000 + f)\<bar> \<le> 1 / 10 ^ 7"
proof -
  define q :: rat where "q = of_nat (1000 * s + f) / 1000"
  define b where "b = h * 3600 + m * 60"
  have q0: "0 \<le> q" by (simp add: q_def)
  have q1: "q < 100"
  proof -
    have "1000 * s + f < 100000" using assms by simp
    then have "(of_nat (1000 * s + f) :: rat) < of_nat 100000" by (simp only: of_nat_less_iff)
    then show ?thesis by (simp add: q_def)
  qed
  have e1: "\<bar>rd q - q\<bar> \<le> pow2 (7 - 54)" using q0 q1 by (intro rd_err) (simp_all add: pow2_def)
  have p1: "pow2 (7 - 54) \<le> 1" by (simp add: pow2_def)
  have r1: "0 \<le> rd q" "rd q < 101"
    using rd_nonneg [OF q0] e1 q1 p1 by linarith+
  have bb: "(of_nat b :: rat) \<le> 362340"
  proof -
    have "b \<le> 362340" using assms by (simp add: b_def)
    then have "(of_nat b :: rat) \<le> of_nat 362340" by (simp only: of_nat_le_iff)
    then show ?thesis by simp
  qed
  define x where "x = of_nat b + rd q"
  have x0: "0 \<le> x" "x < 362441" using r1 bb unfolding x_def by linarith+
  have e2: "\<bar>rd x - x\<bar> \<le> pow2 (19 - 54)" using x0 by (intro rd_err) (simp_all add: pow2_def)
  have p2: "pow2 (19 - 54) \<le> 1" by (simp add: pow2_def)
  have r2: "0 \<le> rd x" "rd x < 362442" using rd_nonneg [OF x0(1)] e2 x0 p2 by linarith+
  define y where "y = rd x * 1000"
  have y0: "0 \<le> y" "y < 362442000" using r2 unfolding y_def by linarith+
  have e3: "\<bar>rd y - y\<bar> \<le> pow2 (29 - 54)" using y0 by (intro rd_err) (simp_all add: pow2_def)
  have vy: "v = rd y" by (simp add: v_def y_def x_def b_def q_def)
  have ex: "(of_nat (((h * 60 + m) * 60 + s) * 1000 + f) :: rat) = (of_nat b + q) * 1000"
    by (simp add: b_def q_def algebra_simps)
  have eq: "rd y - (of_nat b + q) * 1000 = (rd y - y) + 1000 * (rd x - x) + 1000 * (rd q - q)"
    by (simp add: y_def x_def algebra_simps)
  have tri: "\<bar>a + 1000 * c + 1000 * d\<bar> \<le> \<bar>a\<bar> + 1000 * \<bar>c\<bar> + 1000 * \<bar>d\<bar>" for a c d :: rat
    by linarith
  have "\<bar>rd y - (of_nat b + q) * 1000\<bar> \<le> \<bar>rd y - y\<bar> + 1000 * \<bar>rd x - x\<bar> + 1000 * \<bar>rd q - q\<bar>"
    unfolding eq by (rule tri)
  also have "\<dots> \<le> pow2 (29 - 54) + 1000 * pow2 (19 - 54) + 1000 * pow2 (7 - 54)"
    by (intro add_mono mult_left_mono e1 e2 e3) simp_all
  also have "\<dots> \<le> 1 / 10 ^ 7" by (simp add: pow2_def)
  finally have "\<bar>rd y - (of_nat b + q) * 1000\<bar> \<le> 1 / 10 ^ 7" .
  then show ?thesis unfolding vy ex using rd_nonneg [OF y0(1)] by blast
qed

text \<open>
  C3, as the claim states it, fails: the seconds are read as a binary fraction and the
  sum is multiplied by 1000 in binary arithmetic, so the result of a valid timestamp
  need not be an integer. \<open>00:00:01,001\<close> gives 1000.9999999999999, not 1001.
\<close>

theorem parseTime_integer_counterexample:
  "parseTime (Some ''00:00:01,001'') = Fin False (8804889115230207 / 8796093022208)
   \<and> (8804889115230207 / 8796093022208 :: rat) \<noteq> 1001"
proof -
  have "parseTime (Some ''00:00:01,001'') =
        js_mul (js_add (js_add (js_mul (to_double False 0) (num 3600))
                               (js_mul (to_double False 0) (num 60)))
                       (to_double False (1001 / 1000))) (num 1000)"
    by (simp add: string_eval)
  also have "\<dots> = Fin False (8804889115230207 / 8796093022208)"
    by (simp add: number_eval)
  finally show ?thesis by simp
qed

text \<open>
  C3 (amended): for every valid fixed-width timestamp, the comma spelling and the period
  spelling give the same result, a finite non-negative number within 10^-7 of the integer
  millisecond offset ((H*60+M)*60+S)*1000 + mmm.
\<close>

theorem parseTime_valid:
  assumes "h < 100" "m < 100" "s < 100" "f < 1000"
  shows "\<exists>v. parseTime (Some (timestamp CHR '','' h m s f)) = Fin False v
             \<and> parseTime (Some (timestamp CHR ''.'' h m s f)) = Fin False v
             \<and> 0 \<le> v
             \<and> \<bar>v - of_nat (((h * 60 + m) * 60 + s) * 1000 + f)\<bar> \<le> 1 / 10 ^ 7"
  using parseTime_timestamp [OF assms, of "CHR '',''"] parseTime_timestamp [OF assms, of "CHR ''.''"]
    rounding_bound [OF assms]
  by simp

theorem parseTime_valid_witness:
  "(1::nat) < 100 \<and> (2::nat) < 100 \<and> (3::nat) < 100 \<and> (4::nat) < 1000
   \<and> (\<exists>v. parseTime (Some (timestamp CHR '','' 1 2 3 4)) = Fin False v
            \<and> parseTime (Some (timestamp CHR ''.'' 1 2 3 4)) = Fin False v
            \<and> 0 \<le> v
            \<and> \<bar>v - of_nat (((1 * 60 + 2) * 60 + 3) * 1000 + 4)\<bar> \<le> 1 / 10 ^ 7)"
  using parseTime_valid [of 1 2 3 4] by simp

section \<open>The extraction loops end\<close>

text \<open>
  Every match of a pattern is at least \<open>minlen\<close> long. Both patterns match at least one
  character, so every search of the loop starts further on and the loop ends: the parsers
  always return.
\<close>

lemma ms_length: "(s', c') \<in> set (ms r s c) \<Longrightarrow> length s' + minlen r \<le> length s"
proof (induction r s c arbitrary: s' c' rule: ms.induct)
  case (3 a b s c)
  from "3.prems" obtain s1 c1 where m: "(s1, c1) \<in> set (ms a s c)" "(s', c') \<in> set (ms b s1 c1)"
    by auto
  have "length s1 + minlen a \<le> length s" using "3.IH"(1) m(1) by blast
  moreover have "length s' + minlen b \<le> length s1" using "3.IH"(2) m by blast
  ultimately show ?case by simp
next
  case (4 a b s c)
  from "4.prems" have "(s', c') \<in> set (ms a s c) \<or> (s', c') \<in> set (ms b s c)" by auto
  then show ?case
  proof
    assume "(s', c') \<in> set (ms a s c)"
    then have "length s' + minlen a \<le> length s" by (rule "4.IH"(1))
    then show ?thesis by simp
  next
    assume "(s', c') \<in> set (ms b s c)"
    then have "length s' + minlen b \<le> length s" by (rule "4.IH"(2))
    then show ?thesis by simp
  qed
next
  case (5 r s c)
  show ?case
  proof (cases "(s', c') = (s, c)")
    case True
    then show ?thesis by simp
  next
    case False
    with "5.prems" obtain s1 c1 where m: "(s1, c1) \<in> set (ms r s c)" "length s1 < length s"
      "(s', c') \<in> set (ms (Star r) s1 c1)"
      by (subst (asm) ms.simps(5)) (auto split: if_splits)
    have "length s' + minlen (Star r) \<le> length s1" using "5.IH"(2) m by blast
    then show ?thesis using m(2) by simp
  qed
next
  case (6 r s c)
  show ?case
  proof (cases "(s', c') = (s, c)")
    case True
    then show ?thesis by simp
  next
    case False
    with "6.prems" obtain s1 c1 where m: "(s1, c1) \<in> set (ms r s c)" "length s1 < length s"
      "(s', c') \<in> set (ms (LazyStar r) s1 c1)"
      by (subst (asm) ms.simps(6)) (auto split: if_splits)
    have "length s' + minlen (LazyStar r) \<le> length s1" using "6.IH"(2) m by blast
    then show ?thesis using m(2) by simp
  qed
qed (auto split: list.splits if_splits)

lemma exec_length: "exec r s = Some (rest, c) \<Longrightarrow> length rest + minlen r \<le> length s"
proof (induction s)
  case Nil
  then show ?case using ms_length [of rest c r "[]" "[]"] by (auto split: list.splits)
next
  case (Cons x xs)
  then show ?case using ms_length [of rest c r "x # xs" "[]"] by (auto split: list.splits)
qed

lemma exec_all_total: "0 < minlen r \<Longrightarrow> \<exists>found. exec_all r s = Some found"
proof (induction r s rule: exec_all.induct)
  case (1 r s)
  show ?case
  proof (cases "exec r s")
    case None
    then show ?thesis by (simp add: exec_all.simps)
  next
    case (Some m)
    obtain rest c where m: "m = (rest, c)" by (cases m)
    have l: "length rest < length s" using exec_length [of r s rest c] Some m "1.prems" by simp
    then obtain found where "exec_all r rest = Some found" using "1.IH" Some m "1.prems" by blast
    then show ?thesis using Some m l by (simp add: exec_all.simps [of r s])
  qed
qed

lemma parse_returns: "fst (parseVTT t s) = None \<and> fst (parseSRT t s) = None"
proof -
  have "0 < minlen vtt_pattern" "0 < minlen srt_pattern"
    by (simp_all add: vtt_pattern_def srt_pattern_def stamp_def Plus_def cue_end_def)
  then show ?thesis
    using exec_all_total [of vtt_pattern t] exec_all_total [of srt_pattern t]
    by (auto simp: parseVTT_def parseSRT_def)
qed

section \<open>The cue extractor on a timing line with settings\<close>

lemma vtt_matches:
  "exec_all vtt_pattern payload
   = Some [[(3, ''Hi''), (2, ''00:00:02.500''), (1, ''00:00:01.000'')]]"
  by (simp add: payload_def exec_all.simps ms.simps vtt_pattern_def stamp_def cue_end_def
      Plus_def is_digit_def is_space_def)

lemma parseTime_1000: "parseTime (Some ''00:00:01.000'') = Fin False 1000"
proof -
  have "parseTime (Some ''00:00:01.000'') =
        js_mul (js_add (js_add (js_mul (to_double False 0) (num 3600))
                               (js_mul (to_double False 0) (num 60)))
                       (to_double False 1)) (num 1000)"
    by (simp add: string_eval)
  also have "\<dots> = Fin False 1000" by (simp add: number_eval)
  finally show ?thesis .
qed

lemma parseTime_2500: "parseTime (Some ''00:00:02.500'') = Fin False 2500"
proof -
  have "parseTime (Some ''00:00:02.500'') =
        js_mul (js_add (js_add (js_mul (to_double False 0) (num 3600))
                               (js_mul (to_double False 0) (num 60)))
                       (to_double False (5 / 2))) (num 1000)"
    by (simp add: string_eval)
  also have "\<dots> = Fin False 2500" by (simp add: number_eval)
  finally show ?thesis .
qed

text \<open>
  C8: on \<open>payload\<close> (the timing line \<open>00:00:01.000 --> 00:00:02.500 align:center\<close>, a
  line feed, \<open>Hi\<close> and two line feeds), \<open>parseVTT\<close> pushes exactly one cue, from 1000 to 2500 with the
  text \<open>Hi\<close>: the settings after the end timestamp are skipped.
\<close>

theorem parseVTT_example:
  "parseVTT payload constructed
   = (None, constructed\<lparr>cues := [\<lparr>cid = 0, start = Fin False 1000, end' = Fin False 2500,
                                     text' = ''Hi''\<rparr>],
                          next_cid := 1\<rparr>)"
  unfolding parseVTT_def vtt_matches
  by (simp add: mk_cue_def parseTime_1000 parseTime_2500 trim_def is_space_def constructed_def)

theorem parseVTT_example_witness:
  "map (\<lambda>c. (start c, end' c, text' c))
     (cues (snd (parseVTT payload constructed)))
   = [(Fin False 1000, Fin False 2500, ''Hi'')]"
  using parseVTT_example by simp

section \<open>What each operation leaves unchanged\<close>

lemma applyStyles_frame:
  "cues (snd (applyStyles arg s)) = cues s"
  "isEnabled (snd (applyStyles arg s)) = isEnabled s"
  "requests (snd (applyStyles arg s)) = requests s"
  "console (snd (applyStyles arg s)) = console s"
  "debugOverlay (snd (applyStyles arg s)) = debugOverlay s"
  "activeCue (snd (applyStyles arg s)) = activeCue s"
  "(overlay (snd (applyStyles arg s)) = None) = (overlay s = None)"
  "(innerOverlay (snd (applyStyles arg s)) = None) = (innerOverlay s = None)"
  by (auto simp: applyStyles_def Let_def split: option.splits)

lemma applyStyles_live: "live s \<Longrightarrow> fst (applyStyles arg s) = None"
  by (auto simp: applyStyles_def live_def Let_def split: option.splits)

lemma loadSettings_frame:
  "cues (loadSettings st s) = cues s"
  "isEnabled (loadSettings st s) = isEnabled s"
  "requests (loadSettings st s) = requests s"
  "overlay (loadSettings st s) = overlay s"
  "innerOverlay (loadSettings st s) = innerOverlay s"
  "activeCue (loadSettings st s) = activeCue s"
  by (simp_all add: loadSettings_def say_def split: stored.splits)

lemma say_frame:
  "cues (say l m s) = cues s"
  "isEnabled (say l m s) = isEnabled s"
  "requests (say l m s) = requests s"
  "overlay (say l m s) = overlay s"
  "innerOverlay (say l m s) = innerOverlay s"
  "activeCue (say l m s) = activeCue s"
  "settings (say l m s) = settings s"
  "debugOverlay (say l m s) = debugOverlay s"
  "next_cid (say l m s) = next_cid s"
  by (simp_all add: say_def)

lemma live_say: "live (say l m s) = live s"
  by (simp add: live_def say_frame)

lemma live_applyStyles: "live (snd (applyStyles arg s)) = live s"
  by (simp add: live_def applyStyles_frame)

lemma live_loadSettings: "live (loadSettings st s) = live s"
  by (simp add: live_def loadSettings_frame)

lemma parse_frame:
  "isEnabled (snd (parseVTT t s)) = isEnabled s"
  "overlay (snd (parseVTT t s)) = overlay s"
  "innerOverlay (snd (parseVTT t s)) = innerOverlay s"
  "isEnabled (snd (parseSRT t s)) = isEnabled s"
  "overlay (snd (parseSRT t s)) = overlay s"
  "innerOverlay (snd (parseSRT t s)) = innerOverlay s"
  by (simp_all add: parseVTT_def parseSRT_def split: option.splits)

lemma parseSubtitles_frame:
  "isEnabled (snd (parseSubtitles t f s)) = isEnabled s"
  "live (snd (parseSubtitles t f s)) = live s"
proof -
  define r where "r = (if f = ''srt'' then parseSRT (normalize t) (s\<lparr>cues := []\<rparr>)
                       else parseVTT (normalize t) (s\<lparr>cues := []\<rparr>))"
  have a: "isEnabled (snd r) = isEnabled s" "live (snd r) = live s"
    by (simp_all add: r_def parse_frame live_def)
  have p: "parseSubtitles t f s =
           (case r of (Some e, s2) \<Rightarrow> (Some e, s2)
            | (None, s2) \<Rightarrow> applyStyles (Some (settings s2))
                 (say Log (''[SubtitleManager] Parsed '' @ show_nat (length (cues s2)) @ '' cues'') s2))"
    by (simp add: parseSubtitles_def r_def Let_def)
  show "isEnabled (snd (parseSubtitles t f s)) = isEnabled s"
    unfolding p using a
    by (cases r) (auto simp: applyStyles_frame(2) say_frame(2) split: option.splits)
  show "live (snd (parseSubtitles t f s)) = live s"
    unfolding p using a
    by (cases r) (auto simp: live_applyStyles live_say split: option.splits)
qed

lemma update_frame:
  "isEnabled (snd (update t s)) = isEnabled s"
  "live (snd (update t s)) = live s"
  by (auto simp: update_def live_def say_def Let_def split: option.splits)

lemma disable_frame:
  "\<not> isEnabled (snd (disable s))"
  "live s \<Longrightarrow> live (snd (disable s))"
  by (auto simp: disable_def live_def Let_def split: option.splits)

lemma destroy_disabled: "\<not> isEnabled (snd (destroy s))"
  using disable_frame(1) [of s]
  by (auto simp: destroy_def split: prod.splits option.splits)

lemma fetch_error_frame:
  "isEnabled (snd (fetch_error e d s)) = isEnabled s"
  "live (snd (fetch_error e d s)) = live s"
  by (simp_all add: fetch_error_def live_def say_def Let_def)

lemma loadTrack_live: "live s \<Longrightarrow> live (snd (loadTrack tr item src au st sa s))"
proof -
  assume l: "live s"
  then obtain outer where o: "overlay s = Some outer" by (auto simp: live_def)
  define s1 where "s1 = loadSettings st
     (s\<lparr>cues := [], isEnabled := True,
        overlay := Some (outer\<lparr>style := (style outer)\<lparr>css_display := ''flex''\<rparr>\<rparr>)\<rparr>)"
  have l1: "live s1" using l by (simp add: s1_def live_loadSettings) (simp add: live_def)
  have "loadTrack tr item src au st sa s =
        (case applyStyles None s1 of
                (Some e, s2) \<Rightarrow> (Some e, s2)
              | (None, s2) \<Rightarrow>
                  (case (case au of None \<Rightarrow> sa | Some a \<Rightarrow> Some a) of
                     None \<Rightarrow> (None, say Error ''[SubtitleManager] No auth data found'' s2)
                   | Some userAuth \<Rightarrow>
                       let url = track_url tr item src userAuth
                       in (None,
                           (say Log (''[SubtitleManager] Fetching subtitles from: '' @ url) s2)
                             \<lparr>requests := requests s2 @ [(url, track_format tr)]\<rparr>)))"
    by (simp add: loadTrack_def o s1_def Let_def)
  then show ?thesis using live_applyStyles [of None s1] l1
    by (cases "applyStyles None s1")
       (auto simp: live_def say_def Let_def split: option.splits)
qed



lemma live_step: "live s \<Longrightarrow> c \<noteq> Destroy \<Longrightarrow> live (snd (step c s))"
  by (cases c)
     (simp_all add: loadTrack_live fetch_success_def parseSubtitles_frame live_say update_frame
        live_applyStyles live_loadSettings disable_frame fetch_error_frame)

lemma disabled_step: "\<not> isEnabled s \<Longrightarrow> \<not> is_load c \<Longrightarrow> \<not> isEnabled (snd (step c s))"
  by (cases c)
     (simp_all add: fetch_success_def parseSubtitles_frame say_frame update_frame
        applyStyles_frame loadSettings_frame disable_frame fetch_error_frame destroy_disabled)

lemma disabled_run:
  "\<not> isEnabled s \<Longrightarrow> list_all (\<lambda>c. \<not> is_load c) cs \<Longrightarrow> \<not> isEnabled (run cs s)"
  by (induction cs arbitrary: s) (simp_all add: disabled_step)

lemma reuse_free_run:
  "live s \<Longrightarrow> reuse_free cs \<Longrightarrow> live (run cs s) \<or> \<not> isEnabled (run cs s)"
proof (induction cs arbitrary: s)
  case Nil
  then show ?case by simp
next
  case (Cons c cs)
  show ?case
  proof (cases "c = Destroy")
    case True
    then have "\<not> isEnabled (run (c # cs) s)"
      using Cons.prems(2) disabled_run [of "snd (destroy s)" cs] destroy_disabled [of s] by simp
    then show ?thesis by simp
  next
    case False
    then show ?thesis using Cons live_step [of s c] by simp
  qed
qed

lemma update_safe: "live s \<or> \<not> isEnabled s \<Longrightarrow> fst (update t s) = None"
  by (auto simp: update_def live_def say_def Let_def split: option.splits)

lemma live_constructed: "live constructed"
  by (simp add: live_def constructed_def)


section \<open>Concrete traces\<close>

lemma show_nat_small:
  "show_nat 0 = ''0''" "show_nat (Suc 0) = ''1''" "show_nat 2 = ''2''"
  by (simp_all add: show_nat.simps char_of_def bit_iff_odd)

lemma normalize_payload: "normalize payload = payload"
  by (simp add: payload_def normalize_def)

lemma parseVTT_payload:
  "parseVTT payload s =
     (None, s\<lparr>cues := cues s @ [\<lparr>cid = next_cid s, start = Fin False 1000,
                                    end' = Fin False 2500, text' = ''Hi''\<rparr>],
               next_cid := next_cid s + 1\<rparr>)"
  by (simp add: parseVTT_def vtt_matches mk_cue_def parseTime_1000 parseTime_2500 trim_def
      is_space_def)

lemma fetch_success_payload:
  "fetch_success payload ''vtt'' s =
     applyStyles (Some (settings s))
       (say Log ''[SubtitleManager] Parsed 1 cues''
          ((say Log ''[SubtitleManager] Subtitles fetched successfully'' s)
             \<lparr>cues := [\<lparr>cid = next_cid s, start = Fin False 1000, end' = Fin False 2500,
                          text' = ''Hi''\<rparr>],
              next_cid := next_cid s + 1\<rparr>))"
  by (simp add: fetch_success_def parseSubtitles_def normalize_payload parseVTT_payload say_def
      show_nat_small)

lemmas trace_eval =
  load0_def track0_def track1_def auth0_def cue0_def full0_def partial0_def
  fetch_success_payload loadTrack_def destroy_def fetch_error_def
  disable_def applyStyles_def loadSettings_def say_def update_def constructed_def
  track_url_def track_format_def or_else_def toLowerCase_def to_lower_char_def
  show_nat_small inner_style_def outer_style_def font_size_def sizes_def no_style_def
  js_ge_def signed_def
  br_text_def char_of_def bit_iff_odd Let_def

section \<open>The active cue across disable and load\<close>

text \<open>
  C1: the claim asks that no active cue is stored while the engine is disabled, that
  \<open>disable()\<close> clears the active cue and that loading a track resets it. The code of
  \<open>disable()\<close> and \<open>loadTrack\<close> leaves \<open>activeCue\<close> as it is (only \<open>destroy()\<close> sets it to
  null): after a cue was shown, \<open>disable()\<close> leaves the engine disabled with no cues and
  the old cue still stored, and the next \<open>loadTrack\<close> renders the text of that cue again.
\<close>

theorem disable_keeps_activeCue:
  "\<not> isEnabled (run [load0, FetchSuccess payload ''vtt'', Update (Fin False 1500), Disable]
                   constructed)
   \<and> cues (run [load0, FetchSuccess payload ''vtt'', Update (Fin False 1500), Disable]
              constructed) = []
   \<and> activeCue (run [load0, FetchSuccess payload ''vtt'', Update (Fin False 1500), Disable]
                   constructed) = Some cue0
   \<and> map_option innerHTML
         (innerOverlay (run [load0, FetchSuccess payload ''vtt'', Update (Fin False 1500),
                             Disable, load0] constructed)) = Some ''Hi''"
  by (simp add: trace_eval)

section \<open>A failed fetch\<close>




section \<open>Repeated updates\<close>

text \<open>
  C5: after \<open>update(t)\<close>, a second \<open>update(t)\<close> returns normally and changes nothing, neither
  the stored state nor the rendered content, whatever the state and the time.
\<close>

theorem update_twice: "update t (snd (update t s)) = (None, snd (update t s))"
  by (auto simp: update_def say_def Let_def split: option.splits)

theorem update_twice_witness:
  "activeCue (run [load0, FetchSuccess payload ''vtt''] constructed) = None
   \<and> activeCue (snd (update (Fin False 1500) (run [load0, FetchSuccess payload ''vtt''] constructed)))
       = Some cue0
   \<and> update (Fin False 1500)
         (snd (update (Fin False 1500) (run [load0, FetchSuccess payload ''vtt''] constructed)))
       = (None, snd (update (Fin False 1500) (run [load0, FetchSuccess payload ''vtt''] constructed)))"
  using update_twice [of "Fin False 1500" "run [load0, FetchSuccess payload ''vtt''] constructed"]
  by (simp add: trace_eval)

section \<open>Merging configurations\<close>




section \<open>The subtitle locator\<close>

text \<open>
  C7, as the claim states it, fails: the codec is lower-cased and \<open>subrip\<close> is taken for
  \<open>srt\<close>, so a codec other than the literal \<open>srt\<close> can be requested as \<open>srt\<close>.
\<close>

theorem loadTrack_format_counterexample:
  "requests (snd (loadTrack track1 \<lparr>Id = ''i''\<rparr> \<lparr>Id = ''m''\<rparr> (Some auth0) NoStorage None
                    constructed))
   = [(''http://host/Videos/i/m/Subtitles/2/Stream.srt?api_key=tok?api_key=tok'', ''srt'')]
   \<and> \<not> prefix ''http://host/Videos/i/m/Subtitles/2/Stream.vtt''
         ''http://host/Videos/i/m/Subtitles/2/Stream.srt?api_key=tok?api_key=tok''"
  by (simp add: trace_eval)

text \<open>
  C7 (amended): on a live instance with credentials, for a track whose index is an integer
  below \<open>2^53\<close>, \<open>loadTrack\<close> issues one request; its locator starts with
  \<open>{serverAddress}/Videos/{itemId}/{mediaSourceId}/Subtitles/{trackIndex}/Stream.{format}?api_key={accessToken}\<close>,
  where the format is \<open>srt\<close> when the declared codec, lower-cased, is \<open>srt\<close> or \<open>subrip\<close>, and
  \<open>vtt\<close> otherwise, also when no codec is declared.
\<close>

theorem loadTrack_request:
  assumes "live s" and "(case au of None \<Rightarrow> sa | Some x \<Rightarrow> Some x) = Some a"
    and "Index tr < 2 ^ 53"
  shows "\<exists>u. requests (snd (loadTrack tr item src au st sa s)) = requests s @ [(u, track_format tr)]
            \<and> prefix (serverAddress a @ ''/Videos/'' @ Id item @ ''/'' @ Id src @ ''/Subtitles/''
                       @ show_nat (Index tr) @ ''/Stream.'' @ track_format tr
                       @ ''?api_key='' @ accessToken a) u
            \<and> track_format tr =
                (if toLowerCase (or_else (Codec tr) ''vtt'') = ''srt''
                    \<or> toLowerCase (or_else (Codec tr) ''vtt'') = ''subrip''
                 then ''srt'' else ''vtt'')"
proof -
  from assms(1) obtain outer where o: "overlay s = Some outer" by (auto simp: live_def)
  define s1 where "s1 = loadSettings st
     (s\<lparr>cues := [], isEnabled := True,
        overlay := Some (outer\<lparr>style := (style outer)\<lparr>css_display := ''flex''\<rparr>\<rparr>)\<rparr>)"
  have l1: "live s1" using assms(1) by (simp add: s1_def live_loadSettings) (simp add: live_def)
  have r1: "requests s1 = requests s" by (simp add: s1_def loadSettings_frame)
  obtain s2 where a2: "applyStyles None s1 = (None, s2)"
    using applyStyles_live [OF l1, of None] by (cases "applyStyles None s1") simp
  have r2: "requests s2 = requests s" using applyStyles_frame(3) [of None s1] a2 r1 by simp
  have "requests (snd (loadTrack tr item src au st sa s))
        = requests s @ [(track_url tr item src a, track_format tr)]"
    using assms(2) by (simp add: loadTrack_def o s1_def [symmetric] a2 r2 say_def Let_def)
  moreover have "prefix (serverAddress a @ ''/Videos/'' @ Id item @ ''/'' @ Id src @ ''/Subtitles/''
                       @ show_nat (Index tr) @ ''/Stream.'' @ track_format tr
                       @ ''?api_key='' @ accessToken a) (track_url tr item src a)"
    unfolding track_url_def prefix_def by (intro exI [of _ "''?api_key='' @ accessToken a"]) simp
  moreover have "track_format tr =
                (if toLowerCase (or_else (Codec tr) ''vtt'') = ''srt''
                    \<or> toLowerCase (or_else (Codec tr) ''vtt'') = ''subrip''
                 then ''srt'' else ''vtt'')"
    by (simp add: track_format_def Let_def)
  ultimately show ?thesis by blast
qed

theorem loadTrack_request_witness:
  "live constructed \<and> Index track1 < 2 ^ 53
   \<and> (\<exists>u. requests (snd (loadTrack track1 \<lparr>Id = ''i''\<rparr> \<lparr>Id = ''m''\<rparr> None NoStorage (Some auth0)
                             constructed)) = [(u, ''srt'')]
          \<and> prefix ''http://host/Videos/i/m/Subtitles/2/Stream.srt?api_key=tok'' u)"
proof -
  have f: "track_format track1 = ''srt''"
    by (simp add: track_format_def track1_def or_else_def toLowerCase_def to_lower_char_def
        Let_def)
  have r: "requests constructed = []" by (simp add: constructed_def)
  have i: "Index track1 < 2 ^ 53" by (simp add: track1_def)
  have c: "(case None of None \<Rightarrow> Some auth0 | Some x \<Rightarrow> Some x) = Some auth0" by simp
  have p: "serverAddress auth0 @ ''/Videos/'' @ Id \<lparr>Id = ''i''\<rparr> @ ''/'' @ Id \<lparr>Id = ''m''\<rparr>
             @ ''/Subtitles/'' @ show_nat (Index track1) @ ''/Stream.'' @ ''srt''
             @ ''?api_key='' @ accessToken auth0
           = ''http://host/Videos/i/m/Subtitles/2/Stream.srt?api_key=tok''"
    by (simp add: auth0_def track1_def show_nat_small)
  obtain u where
    u: "requests (snd (loadTrack track1 \<lparr>Id = ''i''\<rparr> \<lparr>Id = ''m''\<rparr> None NoStorage (Some auth0)
                         constructed)) = [(u, ''srt'')]"
       "prefix ''http://host/Videos/i/m/Subtitles/2/Stream.srt?api_key=tok'' u"
    using loadTrack_request [OF live_constructed c i,
        where item = "\<lparr>Id = ''i''\<rparr>" and src = "\<lparr>Id = ''m''\<rparr>" and st = NoStorage]
    unfolding f r p by auto
  then show ?thesis using live_constructed i by blast
qed

section \<open>Updates never raise before the instance is reused\<close>

text \<open>
  C9, as the claim states it, fails: \<open>loadTrack\<close> on a destroyed instance raises, but only
  after it has enabled the engine; when cues then arrive (from a request issued before
  \<open>destroy()\<close>), \<open>update\<close> finds a cue and assigns to the surface that is gone.
\<close>

theorem update_after_reuse_counterexample:
  "fst (update (Fin False 1500)
         (run [load0, Destroy, load0, FetchSuccess payload ''vtt''] constructed))
   = Some TypeError"
  by (simp add: trace_eval)

text \<open>
  C9 (amended): as long as no track is loaded after \<open>destroy()\<close>, \<open>update\<close> returns
  normally in every state the calls on an instance can reach, for every time; this
  includes every state after \<open>destroy()\<close>.
\<close>

theorem update_never_raises:
  "reuse_free cs \<Longrightarrow> fst (update t (run cs constructed)) = None"
  using reuse_free_run [OF live_constructed] update_safe by blast

theorem update_never_raises_witness:
  "reuse_free [load0, FetchSuccess payload ''vtt'', Destroy, Update (Fin False 1500)]
   \<and> fst (update (Fin False 1500)
            (run [load0, FetchSuccess payload ''vtt'', Destroy, Update (Fin False 1500)]
               constructed)) = None"
  using update_never_raises
    [of "[load0, FetchSuccess payload ''vtt'', Destroy, Update (Fin False 1500)]" "Fin False 1500"]
  by (simp add: load0_def)

section \<open>Destroying twice\<close>

text \<open>
  C10: on an instance that \<open>destroy()\<close> has torn down, a second \<open>destroy()\<close> returns
  normally and leaves it as the first did: no cues, no active cue, no elements, disabled.
\<close>

theorem destroy_twice:
  "destroy s = (None, s') \<Longrightarrow>
     destroy s' = (None, s') \<and> cues s' = [] \<and> activeCue s' = None \<and> overlay s' = None
     \<and> innerOverlay s' = None \<and> \<not> isEnabled s'"
  by (auto simp: destroy_def disable_def Let_def split: option.splits prod.splits)

theorem destroy_twice_witness:
  "cues (run [load0, FetchSuccess payload ''vtt'', Update (Fin False 1500)] constructed) = [cue0]
   \<and> fst (destroy (run [load0, FetchSuccess payload ''vtt'', Update (Fin False 1500)]
                    constructed)) = None
   \<and> destroy (snd (destroy (run [load0, FetchSuccess payload ''vtt'', Update (Fin False 1500)]
                              constructed)))
       = (None, snd (destroy (run [load0, FetchSuccess payload ''vtt'', Update (Fin False 1500)]
                                constructed)))
   \<and> cues (snd (destroy (run [load0, FetchSuccess payload ''vtt'', Update (Fin False 1500)]
                           constructed))) = []
   \<and> overlay (snd (destroy (run [load0, FetchSuccess payload ''vtt'', Update (Fin False 1500)]
                              constructed))) = None"
proof -
  define s where "s = run [load0, FetchSuccess payload ''vtt'', Update (Fin False 1500)] constructed"
  have c: "cues s = [cue0]" by (simp add: s_def trace_eval)
  have f: "fst (destroy s) = None" by (simp add: s_def trace_eval)
  then have "destroy s = (None, snd (destroy s))"
    by (metis prod.collapse)
  then show ?thesis using destroy_twice [of s "snd (destroy s)"] f c unfolding s_def by simp
qed

end
